theory Spec2Isabelle
  imports Main "HOL-Library.Multiset"
begin

section \<open>Catalog rows and file records\<close>

text \<open>
  A file record is the dictionary that \<^verbatim>\<open>find_duplicates_in_location\<close> builds from one
  result row: the keys \<^verbatim>\<open>archives_app_file_id\<close>, \<^verbatim>\<open>file_server_directories\<close>,
  \<^verbatim>\<open>filename\<close>, \<^verbatim>\<open>size\<close> and \<^verbatim>\<open>loc_count\<close>. A location is the dictionary of
  \<^verbatim>\<open>get_all_locations_for_file\<close>, with the three middle keys only. The key
  \<^verbatim>\<open>size\<close> is the field \<open>size_bytes\<close> here.
\<close>

record location =
  file_server_directories :: string
  filename :: string
  size_bytes :: int

record file_record = location +
  archives_app_file_id :: int
  loc_count :: nat

section \<open>filters.py\<close>

text \<open>ASCII \<^verbatim>\<open>str.lower\<close>: the letters A to Z are mapped to a to z.\<close>

definition lower_char :: "char \<Rightarrow> char" where
  "lower_char c =
     (case map_of (zip ''ABCDEFGHIJKLMNOPQRSTUVWXYZ'' ''abcdefghijklmnopqrstuvwxyz'') c of
        Some d \<Rightarrow> d
      | None \<Rightarrow> c)"

definition lower :: "string \<Rightarrow> string" where
  "lower s = map lower_char s"

definition endswith :: "string \<Rightarrow> string \<Rightarrow> bool" where
  "endswith s ext = (length ext \<le> length s \<and> drop (length s - length ext) s = ext)"

definition no_filter :: "file_record \<Rightarrow> bool" where
  "no_filter file_record = False"

definition exclude_cad_fonts :: "file_record \<Rightarrow> bool" where
  "exclude_cad_fonts file_record =
     (let fname = lower (filename file_record)
      in list_ex (\<lambda>ext. endswith fname ext) [''.shx'', ''.lin'', ''.pat'', ''.pcx''])"

definition exclude_system_files :: "file_record \<Rightarrow> bool" where
  "exclude_system_files file_record =
     (lower (filename file_record) \<in> set [''thumbs.db'', ''.ds_store'', ''desktop.ini''])"

definition ACTIVE_FILTERS :: "(file_record \<Rightarrow> bool) list" where
  "ACTIVE_FILTERS = [no_filter]"

section \<open>sweep.py: the filter pipeline\<close>

text \<open>
  The inner loop of \<^verbatim>\<open>apply_filters\<close>: the filters are tried in order and the first one
  that returns True sets \<^verbatim>\<open>excluded\<close> and breaks.
\<close>

fun excluded_by :: "('r \<Rightarrow> bool) list \<Rightarrow> 'r \<Rightarrow> bool" where
  "excluded_by [] record = False"
| "excluded_by (filter_func # rest) record =
     (if filter_func record then True else excluded_by rest record)"

text \<open>The outer loop, with the registry of filters as an argument.\<close>

fun apply_filters_with :: "('r \<Rightarrow> bool) list \<Rightarrow> 'r list \<Rightarrow> 'r list" where
  "apply_filters_with fs [] = []"
| "apply_filters_with fs (record # file_records) =
     (if \<not> excluded_by fs record then record # apply_filters_with fs file_records
      else apply_filters_with fs file_records)"

definition apply_filters :: "file_record list \<Rightarrow> file_record list" where
  "apply_filters file_records = apply_filters_with ACTIVE_FILTERS file_records"

section \<open>Python strings\<close>

text \<open>
  Strings are byte strings here (\<^typ>\<open>string\<close>), so \<^verbatim>\<open>str.strip\<close>, \<^verbatim>\<open>str.split\<close>,
  \<^verbatim>\<open>str.lower\<close> and \<^verbatim>\<open>int\<close> are modelled on ASCII text: the white space is the
  ASCII white space of \<^verbatim>\<open>str.isspace\<close>, the digits are 0 to 9. The limit of
  \<^verbatim>\<open>int\<close> on the number of digits is not modelled.
\<close>

definition isspace :: "char \<Rightarrow> bool" where
  "isspace c \<longleftrightarrow>
     c \<in> set [CHR 0x09, CHR 0x0A, CHR 0x0B, CHR 0x0C, CHR 0x0D,
              CHR 0x1C, CHR 0x1D, CHR 0x1E, CHR 0x1F, CHR 0x20]"

definition strip :: "string \<Rightarrow> string" where
  "strip s = rev (dropWhile isspace (rev (dropWhile isspace s)))"

text \<open>\<^verbatim>\<open>s.split()\<close>: the maximal runs of characters that are not white space.\<close>

fun split_acc :: "string \<Rightarrow> string \<Rightarrow> string list" where
  "split_acc cur [] = (if cur = [] then [] else [cur])"
| "split_acc cur (c # cs) =
     (if isspace c then (if cur = [] then split_acc [] cs else cur # split_acc [] cs)
      else split_acc (cur @ [c]) cs)"

definition split :: "string \<Rightarrow> string list" where
  "split s = split_acc [] s"

definition startswith :: "string \<Rightarrow> string \<Rightarrow> bool" where
  "startswith s pre = (take (length pre) s = pre)"

definition digit_value :: "char \<Rightarrow> nat option" where
  "digit_value c = map_of (zip ''0123456789'' [0, 1, 2, 3, 4, 5, 6, 7, 8, 9]) c"

text \<open>
  The digits of an integer literal after its first digit: a single underscore may stand
  between two digits.
\<close>

fun more_digits :: "nat \<Rightarrow> string \<Rightarrow> nat option" where
  "more_digits acc [] = Some acc"
| "more_digits acc [c] =
     (case digit_value c of None \<Rightarrow> None | Some v \<Rightarrow> Some (10 * acc + v))"
| "more_digits acc (c # d # cs) =
     (if c = CHR ''_'' then
        (case digit_value d of None \<Rightarrow> None | Some v \<Rightarrow> more_digits (10 * acc + v) cs)
      else
        (case digit_value c of None \<Rightarrow> None | Some v \<Rightarrow> more_digits (10 * acc + v) (d # cs)))"

definition py_digits :: "string \<Rightarrow> nat option" where
  "py_digits s =
     (case s of
        [] \<Rightarrow> None
      | c # cs \<Rightarrow> (case digit_value c of None \<Rightarrow> None | Some v \<Rightarrow> more_digits v cs))"

text \<open>\<^verbatim>\<open>int(x)\<close> on a token without white space; None is the ValueError.\<close>

definition py_int :: "string \<Rightarrow> int option" where
  "py_int s =
     (case s of
        [] \<Rightarrow> None
      | c # cs \<Rightarrow>
          if c = CHR ''-'' then map_option (\<lambda>n. - int n) (py_digits cs)
          else if c = CHR ''+'' then map_option int (py_digits cs)
          else map_option int (py_digits s))"

section \<open>sweep.py: parse\_user\_command\<close>

definition parse_user_command :: "string \<Rightarrow> string \<times> int list" where
  "parse_user_command raw =
     (let command = lower (strip raw) in
      if command = [] then (''invalid'', [])
      else if command = ''c'' then (''keep'', [])
      else if command = ''s'' then (''skip'', [])
      else if command = ''q'' then (''quit'', [])
      else if startswith command ''o '' then
        (case split command of
           _ # x # _ \<Rightarrow>
             (case py_int x of Some num \<Rightarrow> (''open'', [num]) | None \<Rightarrow> (''invalid'', []))
         | _ \<Rightarrow> (''invalid'', []))
      else
        (case those (map py_int (split command)) of
           Some numbers \<Rightarrow> (''delete'', numbers)
         | None \<Rightarrow> (''invalid'', [])))"

section \<open>pathlib on a POSIX host\<close>

text \<open>
  The host is taken to be a POSIX one, so \<^verbatim>\<open>Path\<close> is \<^verbatim>\<open>PosixPath\<close>. A path object is
  its root (empty, one slash or two slashes) and the list of its segments.
\<close>

type_synonym pure_path = "string \<times> string list"

text \<open>\<^verbatim>\<open>s.split(sep)\<close> with a separator: there is always at least one piece.\<close>

fun split_on :: "char \<Rightarrow> string \<Rightarrow> string list" where
  "split_on sep [] = [[]]"
| "split_on sep (c # cs) =
     (if c = sep then [] # split_on sep cs
      else (case split_on sep cs of p # ps \<Rightarrow> (c # p) # ps | [] \<Rightarrow> [[c]]))"

definition splitroot :: "string \<Rightarrow> string" where
  "splitroot p =
     (if take 1 p \<noteq> ''/'' then []
      else if take 1 (drop 1 p) \<noteq> ''/'' \<or> take 1 (drop 2 p) = ''/'' then ''/''
      else ''//'')"

definition PurePosixPath :: "string \<Rightarrow> pure_path" where
  "PurePosixPath s = (splitroot s, filter (\<lambda>x. x \<noteq> [] \<and> x \<noteq> ''.'') (split_on CHR ''/'' s))"

definition parts :: "pure_path \<Rightarrow> string list" where
  "parts p = (if fst p = [] then [] else [fst p]) @ snd p"

text \<open>Joining one more argument: an absolute argument replaces what came before it.\<close>

definition join_segment :: "pure_path \<Rightarrow> string \<Rightarrow> pure_path" where
  "join_segment p arg =
     (let q = PurePosixPath arg in if fst q \<noteq> [] then q else (fst p, snd p @ snd q))"

definition joinpath :: "pure_path \<Rightarrow> string list \<Rightarrow> pure_path" where
  "joinpath p args = foldl join_segment p args"

fun join_with :: "string \<Rightarrow> string list \<Rightarrow> string" where
  "join_with sep [] = []"
| "join_with sep [x] = x"
| "join_with sep (x # y # ys) = x @ sep @ join_with sep (y # ys)"

definition str_path :: "pure_path \<Rightarrow> string" where
  "str_path p = (if fst p = [] \<and> snd p = [] then ''.'' else fst p @ join_with ''/'' (snd p))"

section \<open>utils.py: build\_file\_path\<close>

definition build_file_path :: "string \<Rightarrow> string \<Rightarrow> string option \<Rightarrow> pure_path" where
  "build_file_path base_mount server_dir fname =
     (let rel_parts = parts (PurePosixPath server_dir);
          full_path = joinpath (PurePosixPath base_mount) rel_parts
      in case fname of
           None \<Rightarrow> full_path
         | Some f \<Rightarrow> if f \<noteq> [] then joinpath full_path [f] else full_path)"

section \<open>Exceptions and the environment\<close>

text \<open>
  An exception is its class and its message. \<^verbatim>\<open>KeyboardInterrupt\<close> and \<^verbatim>\<open>SystemExit\<close>
  derive from \<^verbatim>\<open>BaseException\<close> and are no instances of \<^verbatim>\<open>Exception\<close>; the other
  classes are.
\<close>

datatype exn =
    ValueError string
  | RuntimeError string
  | IndexError string
  | EOFError string
  | IntegrityError string
  | OSError string
  | MarkupError string
  | KeyboardInterrupt
  | SystemExit string

definition str_exn :: "exn \<Rightarrow> string" where
  "str_exn e =
     (case e of
        ValueError m \<Rightarrow> m | RuntimeError m \<Rightarrow> m | IndexError m \<Rightarrow> m
      | EOFError m \<Rightarrow> m | IntegrityError m \<Rightarrow> m | OSError m \<Rightarrow> m
      | MarkupError m \<Rightarrow> m | KeyboardInterrupt \<Rightarrow> [] | SystemExit m \<Rightarrow> m)"

text \<open>\<^verbatim>\<open>isinstance(e, Exception)\<close>: what a clause \<^verbatim>\<open>except Exception\<close> catches.\<close>

definition is_Exception :: "exn \<Rightarrow> bool" where
  "is_Exception e = (case e of KeyboardInterrupt \<Rightarrow> False | SystemExit m \<Rightarrow> False | _ \<Rightarrow> True)"

text \<open>
  What the program reads from outside itself.
  \<^item> The working directory and the home directories (\<^verbatim>\<open>os.path.expanduser\<close> returns its
    argument when it finds none).
  \<^item> The symbolic links of the file system: the absolute path of each link, as the list
    of its names, without a link among the directories above it, and the text of the
    link. \<^verbatim>\<open>resolve_at_loop\<close> is what \<^verbatim>\<open>Path.resolve()\<close> does with a path on which
    \<^verbatim>\<open>realpath\<close> meets a loop of links: it raises \<^verbatim>\<open>RuntimeError\<close> when the \<^verbatim>\<open>stat\<close> of
    what \<^verbatim>\<open>realpath\<close> returns fails with \<^verbatim>\<open>ELOOP\<close>, and returns that path otherwise.
  \<^item> The clock: the reading of the k-th call of \<^verbatim>\<open>time.time\<close>, in seconds.
  \<^item> Whether the k-th call of \<^verbatim>\<open>sync_to_storage\<close> fails and with which message, and
    whether the k-th request to the Archives App API for a path fails and with which
    message.
  \<^item> The console of the Rich library: for a text with markup, the message of the
    \<^verbatim>\<open>MarkupError\<close> that \<^verbatim>\<open>console.print\<close> raises for it, if it raises. The flag
    \<^verbatim>\<open>debug\<close> is the one of \<^verbatim>\<open>run_sweep\<close>, and \<^verbatim>\<open>format_exc\<close> is the text of
    \<^verbatim>\<open>traceback.format_exc()\<close> in the handler of an exception.
  \<^item> How the answers of the operator end: with \<^verbatim>\<open>Ctrl-C\<close> when \<^verbatim>\<open>interrupted\<close> holds,
    with the end of the input stream otherwise.
\<close>

record environment =
  getcwd :: string
  os_path_expanduser :: "string \<Rightarrow> string"
  symlinks :: "(string list \<times> string) list"
  resolve_at_loop :: "string \<Rightarrow> exn + pure_path"
  time_time :: "nat \<Rightarrow> int"
  sync_error :: "nat \<Rightarrow> string option"
  delete_error :: "nat \<Rightarrow> string \<Rightarrow> string option"
  console_print :: "string \<Rightarrow> string option"
  debug :: bool
  format_exc :: "exn \<Rightarrow> string"
  interrupted :: bool

section \<open>posixpath: realpath\<close>

text \<open>
  \<^verbatim>\<open>posixpath._joinrealpath\<close> with \<^verbatim>\<open>strict=False\<close>. The path resolved so far is
  absolute and is the list of its names; \<^verbatim>\<open>rest\<close> is cut at the slashes into the names
  still to come; \<^verbatim>\<open>seen\<close> is the dictionary of the links met, a link that is being
  resolved having the value \<^verbatim>\<open>None\<close>. \<^verbatim>\<open>os.lstat\<close> finds a link exactly at the paths of
  \<^verbatim>\<open>symlinks\<close>. The result is the resolved path with the dictionary, or \<open>Symlink_loop\<close>
  when a link is met again while it is being resolved, where the function returns with
  the flag \<^verbatim>\<open>False\<close>.

  Each nested call has one more link that is being resolved, so the calls are never
  nested deeper than there are links; \<open>depth\<close> counts the nested calls that may still
  be made and makes the recursion well-founded. \<open>Too_deep\<close> does not occur when
  \<open>depth\<close> starts at the number of links (lemma \<open>joinrealpath_depth\<close>).
\<close>

type_synonym seen = "(string list \<times> string list option) list"

datatype realpath_result = Resolved "string list" seen | Symlink_loop | Too_deep

fun joinrealpath ::
  "environment \<Rightarrow> nat \<Rightarrow> string list \<Rightarrow> string list \<Rightarrow> seen \<Rightarrow> realpath_result"
where
  "joinrealpath E depth path [] seen = Resolved path seen"
| "joinrealpath E depth path (name # rest) seen =
     (if name = [] \<or> name = ''.'' then joinrealpath E depth path rest seen
      else if name = ''..'' then joinrealpath E depth (butlast path) rest seen
      else
        (let newpath = path @ [name] in
         case map_of (symlinks E) newpath of
           None \<Rightarrow> joinrealpath E depth newpath rest seen
         | Some target \<Rightarrow>
             (case map_of seen newpath of
                Some (Some cached) \<Rightarrow> joinrealpath E depth cached rest seen
              | Some None \<Rightarrow> Symlink_loop
              | None \<Rightarrow>
                  if depth = 0 then Too_deep
                  else
                    (case joinrealpath E (depth - 1)
                            (if take 1 target = ''/'' then [] else path)
                            (split_on CHR ''/'' (if take 1 target = ''/'' then drop 1 target else target))
                            ((newpath, None) # seen) of
                       Resolved p seen' \<Rightarrow> joinrealpath E depth p rest ((newpath, Some p) # seen')
                     | Symlink_loop \<Rightarrow> Symlink_loop
                     | Too_deep \<Rightarrow> Too_deep))))"

section \<open>utils.py: extract\_server\_dirs\<close>

text \<open>\<^verbatim>\<open>Path.expanduser\<close>: only a relative path whose first segment starts with a tilde changes.\<close>

definition expanduser :: "environment \<Rightarrow> pure_path \<Rightarrow> exn + pure_path" where
  "expanduser E p =
     (case snd p of
        [] \<Rightarrow> Inr p
      | first # others \<Rightarrow>
          if fst p = [] \<and> take 1 first = ''~'' then
            (let homedir = os_path_expanduser E first in
             if take 1 homedir = ''~'' then Inl (RuntimeError ''Could not determine home directory.'')
             else Inr (fst (PurePosixPath homedir), snd (PurePosixPath homedir) @ others))
          else Inr p)"

text \<open>
  \<^verbatim>\<open>Path.resolve()\<close>: \<^verbatim>\<open>os.path.realpath\<close> of the path, and then a \<^verbatim>\<open>stat\<close> of the
  result to find a loop of links. A relative path is resolved from the working
  directory, which \<^verbatim>\<open>os.getcwd\<close> gives without symbolic links; on a path without a
  loop that is what \<^verbatim>\<open>realpath\<close> finds. When \<^verbatim>\<open>realpath\<close> has resolved every link the
  result has no link in it, the \<^verbatim>\<open>stat\<close> cannot fail with \<^verbatim>\<open>ELOOP\<close>, and the result
  is returned.
\<close>

definition resolve :: "environment \<Rightarrow> pure_path \<Rightarrow> exn + pure_path" where
  "resolve E p =
     (case joinrealpath E (length (symlinks E))
             (if fst p = [] then snd (PurePosixPath (getcwd E)) else []) (snd p) [] of
        Resolved path seen \<Rightarrow> Inr (''/'', path)
      | _ \<Rightarrow> resolve_at_loop E (str_path p))"

text \<open>\<^verbatim>\<open>PurePath.relative_to\<close>; None is its ValueError.\<close>

definition relative_to :: "pure_path \<Rightarrow> pure_path \<Rightarrow> pure_path option" where
  "relative_to full base =
     (if fst full = fst base \<and> take (length (snd base)) (snd full) = snd base
      then Some ([], drop (length (snd base)) (snd full))
      else None)"

text \<open>
  The two arguments are \<^verbatim>\<open>str | Path\<close>: a caller that has a string passes its \<^verbatim>\<open>Path\<close>.
  The full path is expanded and resolved first, then the mount.
\<close>

definition extract_server_dirs :: "environment \<Rightarrow> pure_path \<Rightarrow> pure_path \<Rightarrow> exn + string" where
  "extract_server_dirs E full_path base_mount =
     (case expanduser E full_path of
        Inl e \<Rightarrow> Inl e
      | Inr full_user \<Rightarrow>
          (case resolve E full_user of
             Inl e \<Rightarrow> Inl e
           | Inr full \<Rightarrow>
               (case expanduser E base_mount of
                  Inl e \<Rightarrow> Inl e
                | Inr base_user \<Rightarrow>
                    (case resolve E base_user of
                       Inl e \<Rightarrow> Inl e
                     | Inr base \<Rightarrow>
                         (case relative_to full base of
                            None \<Rightarrow> Inl (ValueError (str_path full @ '' is not under '' @ str_path base))
                          | Some rel_parts \<Rightarrow> Inr (str_path rel_parts))))))"

definition normalize_path_for_query :: "environment \<Rightarrow> pure_path \<Rightarrow> pure_path \<Rightarrow> exn + string" where
  "normalize_path_for_query E user_path mount = extract_server_dirs E user_path mount"

section \<open>service.py: the catalog queries of ArchivesAppDB\<close>

text \<open>
  The two tables the queries read, with the columns they read. The row types carry the
  aliases of the SQL text: \<^verbatim>\<open>f\<close> for \<^verbatim>\<open>files\<close>, \<^verbatim>\<open>fl\<close> for \<^verbatim>\<open>file_locations\<close>.
\<close>

record files_row =
  f_id :: int
  f_size :: int

record file_locations_row =
  fl_file_id :: int
  fl_file_server_directories :: string
  fl_filename :: string

record catalog =
  files :: "files_row list"
  file_locations :: "file_locations_row list"

text \<open>
  The common table expression \<^verbatim>\<open>locs\<close> before its window column: the join of the two
  tables, restricted by the WHERE clause to the rows at the target location. The query
  has no ORDER BY, so SQL leaves the order of its rows open; PostgreSQL sorts the rows by
  file id to compute the window over them, and returns them so.
\<close>

definition locs_rows :: "catalog \<Rightarrow> string \<Rightarrow> (file_locations_row \<times> files_row) list" where
  "locs_rows C target_location =
     sort_key (\<lambda>(fl, f). fl_file_id fl)
       [(fl, f). fl \<leftarrow> file_locations C, f \<leftarrow> files C,
                 f_id f = fl_file_id fl, fl_file_server_directories fl = target_location]"

text \<open>
  \<^verbatim>\<open>COUNT(*) OVER (PARTITION BY fl.file_id)\<close> is computed on the rows that the WHERE
  clause has left: for each of them, the number of those rows with the same file id.
\<close>

definition find_duplicates_in_location :: "catalog \<Rightarrow> string \<Rightarrow> file_record list" where
  "find_duplicates_in_location C target_location =
     (let rows = locs_rows C target_location;
          locs = map (\<lambda>(fl, f).
                   \<lparr>file_server_directories = fl_file_server_directories fl,
                    filename = fl_filename fl,
                    size_bytes = f_size f,
                    archives_app_file_id = fl_file_id fl,
                    loc_count = length (filter (\<lambda>(fl', f'). fl_file_id fl' = fl_file_id fl) rows)\<rparr>)
                 rows
      in filter (\<lambda>r. loc_count r > 1) locs)"

definition get_all_locations_for_file :: "catalog \<Rightarrow> int \<Rightarrow> location list" where
  "get_all_locations_for_file C file_id =
     [\<lparr>file_server_directories = fl_file_server_directories fl,
       filename = fl_filename fl,
       size_bytes = f_size f\<rparr>.
        fl \<leftarrow> file_locations C, f \<leftarrow> files C, f_id f = fl_file_id fl, fl_file_id fl = file_id]"

section \<open>service.py: SweepDB, the tracking database\<close>

text \<open>
  The four tables of \<^verbatim>\<open>_create_new_db\<close>, each a list of rows in insertion order. The
  columns that hold the time of the write (\<^verbatim>\<open>datetime\<close>, \<^verbatim>\<open>processed_at\<close>,
  \<^verbatim>\<open>deleted_at\<close>, \<^verbatim>\<open>timestamp\<close>) are left out: nothing reads them.
\<close>

record processed_locations_row =
  pl_id :: nat
  pl_location_path :: string
  pl_duplicates_count :: nat
  pl_completed :: bool

record processed_files_row =
  pf_id :: nat
  pf_archives_app_file_id :: int
  pf_processed_location_id :: nat
  pf_decision :: string

record deleted_files_row =
  df_id :: nat
  df_processed_file_id :: nat
  df_path :: string
  df_file_size :: int

record errors_row =
  er_id :: nat
  er_operation :: string
  er_message :: string
  er_context :: "string option"

record sweep_db =
  processed_locations :: "processed_locations_row list"
  processed_files :: "processed_files_row list"
  deleted_files :: "deleted_files_row list"
  errors :: "errors_row list"

text \<open>
  \<^verbatim>\<open>INTEGER PRIMARY KEY AUTOINCREMENT\<close>: the new id is one more than the largest id of
  the table. The program never deletes a row, so the largest id ever given is the largest
  id in the table.
\<close>

definition lastrowid :: "nat list \<Rightarrow> nat" where
  "lastrowid ids = Suc (fold max ids 0)"

definition is_file_processed :: "sweep_db \<Rightarrow> int \<Rightarrow> bool" where
  "is_file_processed D file_id \<longleftrightarrow> file_id \<in> set (map pf_archives_app_file_id (processed_files D))"

definition record_processed_location :: "sweep_db \<Rightarrow> string \<Rightarrow> nat \<Rightarrow> bool \<Rightarrow> nat \<times> sweep_db" where
  "record_processed_location D location_path duplicates_count completed =
     (let new_id = lastrowid (map pl_id (processed_locations D)) in
      (new_id,
       D\<lparr>processed_locations := processed_locations D @
            [\<lparr>pl_id = new_id, pl_location_path = location_path,
              pl_duplicates_count = duplicates_count, pl_completed = completed\<rparr>]\<rparr>))"

text \<open>
  The column \<^verbatim>\<open>archives_app_file_id\<close> is declared UNIQUE: the INSERT of a file id that
  the table holds already raises \<^verbatim>\<open>sqlite3.IntegrityError\<close> and writes nothing.
\<close>

definition record_processed_file :: "sweep_db \<Rightarrow> int \<Rightarrow> nat \<Rightarrow> string \<Rightarrow> (exn + nat) \<times> sweep_db" where
  "record_processed_file D file_id processed_location_id decision =
     (if file_id \<in> set (map pf_archives_app_file_id (processed_files D)) then
        (Inl (IntegrityError ''UNIQUE constraint failed: processed_files.archives_app_file_id''), D)
      else
        (let new_id = lastrowid (map pf_id (processed_files D)) in
         (Inr new_id,
          D\<lparr>processed_files := processed_files D @
               [\<lparr>pf_id = new_id, pf_archives_app_file_id = file_id,
                 pf_processed_location_id = processed_location_id,
                 pf_decision = decision\<rparr>]\<rparr>)))"

definition record_deleted_file :: "sweep_db \<Rightarrow> nat \<Rightarrow> string \<Rightarrow> int \<Rightarrow> sweep_db" where
  "record_deleted_file D processed_file_id path file_size =
     D\<lparr>deleted_files := deleted_files D @
          [\<lparr>df_id = lastrowid (map df_id (deleted_files D)),
            df_processed_file_id = processed_file_id, df_path = path,
            df_file_size = file_size\<rparr>]\<rparr>"

definition log_error :: "sweep_db \<Rightarrow> string \<Rightarrow> string \<Rightarrow> string option \<Rightarrow> sweep_db" where
  "log_error D operation message context =
     D\<lparr>errors := errors D @
          [\<lparr>er_id = lastrowid (map er_id (errors D)), er_operation = operation,
            er_message = message, er_context = context\<rparr>]\<rparr>"

section \<open>The state of a sweep\<close>

text \<open>
  The calls that act on the world outside the sweep, in the order they are made: the
  writes to the tracking database, the syncs and their outcome, the requests to the
  Archives App API and their outcome, the tables shown and the files opened, and the
  releases of the cleanup phase.
\<close>

datatype event =
    Record_processed_location string nat
  | Record_processed_file int string
  | Record_deleted_file string int
  | Log_error string string "string option"
  | Sync_to_storage bool
  | Enqueue_delete_edit string bool
  | Display_file_locations int
  | Copy_and_open string
  | Temp_cleanup
  | Close_sweep_db
  | Close_archives_db

text \<open>
  The staging copy of the tracking database, the copy at the storage location (None when
  there is no file there), and the calls made so far.
\<close>

record sweep_state =
  db :: sweep_db
  storage :: "sweep_db option"
  trace :: "event list"

fun is_sync :: "event \<Rightarrow> bool" where
  "is_sync (Sync_to_storage ok) = True"
| "is_sync ev = False"

fun is_enqueue :: "event \<Rightarrow> bool" where
  "is_enqueue (Enqueue_delete_edit p ok) = True"
| "is_enqueue ev = False"

text \<open>
  \<^verbatim>\<open>sync_to_storage\<close> copies the staging file over the storage file, or raises and
  leaves the storage file as it was.
\<close>

definition sync_to_storage :: "environment \<Rightarrow> sweep_state \<Rightarrow> exn option \<times> sweep_state" where
  "sync_to_storage E st =
     (case sync_error E (length (filter is_sync (trace st))) of
        None \<Rightarrow> (None, st\<lparr>storage := Some (db st), trace := trace st @ [Sync_to_storage True]\<rparr>)
      | Some m \<Rightarrow> (Some (OSError m), st\<lparr>trace := trace st @ [Sync_to_storage False]\<rparr>))"

text \<open>\<^verbatim>\<open>ArchivesApp.enqueue_delete_edit\<close> catches every exception of the request.\<close>

definition enqueue_delete_edit :: "environment \<Rightarrow> nat \<Rightarrow> string \<Rightarrow> bool \<times> string option" where
  "enqueue_delete_edit E k target_path =
     (case delete_error E k target_path of None \<Rightarrow> (True, None) | Some m \<Rightarrow> (False, Some m))"

section \<open>sweep.py: grouping\<close>

text \<open>
  \<^verbatim>\<open>group_by_file_id\<close> fills a dictionary, which keeps its keys in the order of their
  first insertion: the groups are an association list in that order.
\<close>

fun add_to_group :: "(int \<times> file_record list) list \<Rightarrow> file_record \<Rightarrow> (int \<times> file_record list) list" where
  "add_to_group [] r = [(archives_app_file_id r, [r])]"
| "add_to_group ((k, rs) # grouped) r =
     (if k = archives_app_file_id r then (k, rs @ [r]) # grouped
      else (k, rs) # add_to_group grouped r)"

definition group_by_file_id :: "file_record list \<Rightarrow> (int \<times> file_record list) list" where
  "group_by_file_id file_records = foldl add_to_group [] file_records"

section \<open>sweep.py: run\_sweep\<close>

text \<open>How a block of the sweep ends: it runs to its end, it returns from \<^verbatim>\<open>run_sweep\<close>, or it raises.\<close>

datatype outcome = Finished | Returned | Raised exn

text \<open>The subscript \<^verbatim>\<open>xs[i]\<close> of a Python list: a negative index counts from the end.\<close>

definition subscript :: "'a list \<Rightarrow> int \<Rightarrow> exn + 'a" where
  "subscript xs i =
     (if 0 \<le> i \<and> i < int (length xs) then Inr (xs ! nat i)
      else if - int (length xs) \<le> i \<and> i < 0 then Inr (xs ! nat (int (length xs) + i))
      else Inl (IndexError ''list index out of range''))"

text \<open>The writes of the sweep to the tracking database, each noted in the trace.\<close>

definition write_processed_location :: "sweep_state \<Rightarrow> string \<Rightarrow> nat \<Rightarrow> bool \<Rightarrow> nat \<times> sweep_state" where
  "write_processed_location st location_path duplicates_count completed =
     (let (new_id, D) = record_processed_location (db st) location_path duplicates_count completed in
      (new_id, st\<lparr>db := D, trace := trace st @ [Record_processed_location location_path duplicates_count]\<rparr>))"

definition write_processed_file :: "sweep_state \<Rightarrow> int \<Rightarrow> nat \<Rightarrow> string \<Rightarrow> (exn + nat) \<times> sweep_state" where
  "write_processed_file st file_id location_id decision =
     (case record_processed_file (db st) file_id location_id decision of
        (Inl e, D) \<Rightarrow> (Inl e, st)
      | (Inr new_id, D) \<Rightarrow>
          (Inr new_id, st\<lparr>db := D, trace := trace st @ [Record_processed_file file_id decision]\<rparr>))"

definition write_deleted_file :: "sweep_state \<Rightarrow> nat \<Rightarrow> string \<Rightarrow> int \<Rightarrow> sweep_state" where
  "write_deleted_file st processed_file_id path file_size =
     st\<lparr>db := record_deleted_file (db st) processed_file_id path file_size,
        trace := trace st @ [Record_deleted_file path file_size]\<rparr>"

definition write_error :: "sweep_state \<Rightarrow> string \<Rightarrow> string \<Rightarrow> string option \<Rightarrow> sweep_state" where
  "write_error st operation message context =
     st\<lparr>db := log_error (db st) operation message context,
        trace := trace st @ [Log_error operation message context]\<rparr>"

text \<open>
  The loop \<^verbatim>\<open>for num in valid_numbers\<close> of the delete command: one request per element of
  the list, a row of \<^verbatim>\<open>deleted_files\<close> when the request succeeded and a row of
  \<^verbatim>\<open>errors\<close> when it failed. The column \<^verbatim>\<open>message\<close> is NOT NULL.
\<close>

fun delete_each ::
  "environment \<Rightarrow> string \<Rightarrow> nat \<Rightarrow> location list \<Rightarrow> int list \<Rightarrow> sweep_state \<Rightarrow> exn option \<times> sweep_state"
where
  "delete_each E file_server_mount processed_file_id all_locations [] st = (None, st)"
| "delete_each E file_server_mount processed_file_id all_locations (num # nums) st =
     (case subscript all_locations (num - 1) of
        Inl e \<Rightarrow> (Some e, st)
      | Inr loc \<Rightarrow>
          (let file_path = str_path (build_file_path file_server_mount
                             (file_server_directories loc) (Some (filename loc)));
               (success, error) =
                  enqueue_delete_edit E (length (filter is_enqueue (trace st))) file_path;
               st1 = st\<lparr>trace := trace st @ [Enqueue_delete_edit file_path success]\<rparr>
           in if success then
                delete_each E file_server_mount processed_file_id all_locations nums
                  (write_deleted_file st1 processed_file_id file_path (size_bytes loc))
              else
                (case error of
                   None \<Rightarrow> (Some (IntegrityError ''NOT NULL constraint failed: errors.message''), st1)
                 | Some message \<Rightarrow>
                     delete_each E file_server_mount processed_file_id all_locations nums
                       (write_error st1 ''delete'' message (Some file_path)))))"

text \<open>
  What \<^verbatim>\<open>Prompt.ask\<close> raises when the operator gives no answer: \<^verbatim>\<open>KeyboardInterrupt\<close>
  when the operator has pressed \<^verbatim>\<open>Ctrl-C\<close>, and the \<^verbatim>\<open>EOFError\<close> of \<^verbatim>\<open>input()\<close> when the
  input stream has ended.
\<close>

definition end_of_answers :: "environment \<Rightarrow> exn" where
  "end_of_answers E =
     (if interrupted E then KeyboardInterrupt else EOFError ''EOF when reading a line'')"

text \<open>
  The prompt loop \<^verbatim>\<open>while True\<close> for one file. The answers of the operator to
  \<^verbatim>\<open>Prompt.ask\<close> are a list; when it is used up the prompt raises. The result is how the
  loop ended, the answers that are left, and the state. What the loop prints is not
  modelled.
\<close>

fun prompt_loop ::
  "environment \<Rightarrow> string \<Rightarrow> nat \<Rightarrow> int \<Rightarrow> location list \<Rightarrow> string list \<Rightarrow> sweep_state
     \<Rightarrow> outcome \<times> string list \<times> sweep_state"
where
  "prompt_loop E file_server_mount location_id file_id all_locations [] st =
     (Raised (end_of_answers E), [], st)"
| "prompt_loop E file_server_mount location_id file_id all_locations (user_input # rest) st =
     (let cmd_type = fst (parse_user_command user_input);
          numbers = snd (parse_user_command user_input)
      in
      if cmd_type = ''invalid'' then
        prompt_loop E file_server_mount location_id file_id all_locations rest st
      else if cmd_type = ''quit'' then
        (case sync_to_storage E st of
           (Some e, st1) \<Rightarrow> (Raised e, rest, st1)
         | (None, st1) \<Rightarrow> (Returned, rest, st1\<lparr>trace := trace st1 @ [Temp_cleanup]\<rparr>))
      else if cmd_type = ''skip'' then (Finished, rest, st)
      else if cmd_type = ''keep'' then
        (case write_processed_file st file_id location_id ''kept_all'' of
           (Inl e, st1) \<Rightarrow> (Raised e, rest, st1)
         | (Inr processed_file_id, st1) \<Rightarrow> (Finished, rest, st1))
      else if cmd_type = ''open'' then
        (case numbers of
           [] \<Rightarrow> (Raised (IndexError ''list index out of range''), rest, st)
         | num # _ \<Rightarrow>
             if 1 \<le> num \<and> num \<le> int (length all_locations) then
               (case subscript all_locations (num - 1) of
                  Inl e \<Rightarrow> (Raised e, rest, st)
                | Inr loc \<Rightarrow>
                    prompt_loop E file_server_mount location_id file_id all_locations rest
                      (st\<lparr>trace := trace st @
                           [Copy_and_open (str_path (build_file_path file_server_mount
                              (file_server_directories loc) (Some (filename loc))))]\<rparr>))
             else prompt_loop E file_server_mount location_id file_id all_locations rest st)
      else if cmd_type = ''delete'' then
        (let valid_numbers = filter (\<lambda>n. 1 \<le> n \<and> n \<le> int (length all_locations)) numbers in
         if valid_numbers = [] then
           prompt_loop E file_server_mount location_id file_id all_locations rest st
         else
           (case rest of
              [] \<Rightarrow> (Raised (end_of_answers E), [], st)
            | confirm # rest' \<Rightarrow>
                if lower confirm \<notin> set [''yes'', ''y''] then
                  prompt_loop E file_server_mount location_id file_id all_locations rest' st
                else
                  (let decision = (if length valid_numbers = length all_locations
                                   then ''deleted_all'' else ''deleted_some'')
                   in case write_processed_file st file_id location_id decision of
                        (Inl e, st1) \<Rightarrow> (Raised e, rest', st1)
                      | (Inr processed_file_id, st1) \<Rightarrow>
                          (case delete_each E file_server_mount processed_file_id
                                  all_locations valid_numbers st1 of
                             (Some e, st2) \<Rightarrow> (Raised e, rest', st2)
                           | (None, st2) \<Rightarrow> (Finished, rest', st2)))))
      else prompt_loop E file_server_mount location_id file_id all_locations rest st)"

text \<open>
  The loop \<^verbatim>\<open>for file_idx, file_id in enumerate(file_ids, start=1)\<close>. The table of
  \<^verbatim>\<open>display_file_locations\<close> reads \<^verbatim>\<open>locations[0]\<close> for its title. After the prompt
  loop of a file has ended by \<^verbatim>\<open>break\<close>, the clock is read, and when at least
  \<^verbatim>\<open>sync_interval\<close> seconds have passed since the last sync the database is synced.
\<close>

definition sync_interval :: int where
  "sync_interval = 600"

fun review_files ::
  "environment \<Rightarrow> catalog \<Rightarrow> string \<Rightarrow> nat \<Rightarrow> nat \<Rightarrow> int \<Rightarrow> int list \<Rightarrow> string list \<Rightarrow> sweep_state
     \<Rightarrow> outcome \<times> sweep_state"
where
  "review_files E C file_server_mount location_id file_idx last_sync_time [] inputs st =
     (Finished, st)"
| "review_files E C file_server_mount location_id file_idx last_sync_time (file_id # file_ids) inputs st =
     (let all_locations = get_all_locations_for_file C file_id in
      case subscript all_locations 0 of
        Inl e \<Rightarrow> (Raised e, st)
      | Inr first_location \<Rightarrow>
          (case prompt_loop E file_server_mount location_id file_id all_locations inputs
                  (st\<lparr>trace := trace st @ [Display_file_locations file_id]\<rparr>) of
             (Raised e, inputs', st1) \<Rightarrow> (Raised e, st1)
           | (Returned, inputs', st1) \<Rightarrow> (Returned, st1)
           | (Finished, inputs', st1) \<Rightarrow>
               (let current_time = time_time E file_idx in
                if current_time - last_sync_time \<ge> sync_interval then
                  (case sync_to_storage E st1 of
                     (Some e, st2) \<Rightarrow> (Raised e, st2)
                   | (None, st2) \<Rightarrow>
                       review_files E C file_server_mount location_id (Suc file_idx)
                         current_time file_ids inputs' st2)
                else
                  review_files E C file_server_mount location_id (Suc file_idx)
                    last_sync_time file_ids inputs' st1)))"

text \<open>
  The files that the review loop presents: discovery, the filters, the check against
  \<^verbatim>\<open>processed_files\<close>, grouping, and the keys of the groups.
\<close>

definition unprocessed_records :: "sweep_db \<Rightarrow> catalog \<Rightarrow> string \<Rightarrow> file_record list" where
  "unprocessed_records D C target_location =
     filter (\<lambda>rec. \<not> is_file_processed D (archives_app_file_id rec))
       (apply_filters (find_duplicates_in_location C target_location))"

definition files_to_review :: "sweep_db \<Rightarrow> catalog \<Rightarrow> string \<Rightarrow> int list" where
  "files_to_review D C target_location =
     map fst (group_by_file_id (unprocessed_records D C target_location))"

text \<open>The body of the \<^verbatim>\<open>try\<close> block.\<close>

definition sweep_try ::
  "environment \<Rightarrow> catalog \<Rightarrow> string \<Rightarrow> string \<Rightarrow> string list \<Rightarrow> sweep_state \<Rightarrow> outcome \<times> sweep_state"
where
  "sweep_try E C location_path file_server_mount inputs st =
     (case normalize_path_for_query E (PurePosixPath location_path)
             (PurePosixPath file_server_mount) of
        Inl e \<Rightarrow> (Raised e, st)
      | Inr target_location \<Rightarrow>
          if find_duplicates_in_location C target_location = [] then (Returned, st)
          else
            (let grouped = group_by_file_id (unprocessed_records (db st) C target_location) in
             if grouped = [] then (Returned, st)
             else
               (let (location_id, st1) =
                      write_processed_location st location_path (length grouped) False;
                    last_sync_time = time_time E 0;
                    file_ids = map fst grouped
                in review_files E C file_server_mount location_id 1 last_sync_time
                     file_ids inputs st1)))"

text \<open>
  The handler \<^verbatim>\<open>except Exception as e\<close>. It prints the exception, and with \<^verbatim>\<open>debug\<close>
  the traceback, through the console before it writes the row of \<^verbatim>\<open>errors\<close>; the text
  of the exception goes into the markup as it is, and a \<^verbatim>\<open>MarkupError\<close> of a print
  leaves the handler before the row is written. The result is the exception that leaves
  the handler, if any, and the state.
\<close>

definition handler :: "environment \<Rightarrow> string \<Rightarrow> exn \<Rightarrow> sweep_state \<Rightarrow> exn option \<times> sweep_state" where
  "handler E location_path e st =
     (case console_print E (''[red]Error during sweep: '' @ str_exn e @ ''[/red]'') of
        Some m \<Rightarrow> (Some (MarkupError m), st)
      | None \<Rightarrow>
          (case (if debug E then console_print E (format_exc E e) else None) of
             Some m \<Rightarrow> (Some (MarkupError m), st)
           | None \<Rightarrow> (None, write_error st ''sweep'' (str_exn e) (Some location_path))))"

text \<open>
  What follows the \<^verbatim>\<open>try\<close> block, given how it ended: the handler, for an exception that
  is an instance of \<^verbatim>\<open>Exception\<close>, and the \<^verbatim>\<open>finally\<close> block. An exception that the
  handler does not catch, or that leaves the handler, is pending during the \<^verbatim>\<open>finally\<close>
  block and leaves \<^verbatim>\<open>run_sweep\<close> after it, unless the final sync raises: then that
  exception leaves \<^verbatim>\<open>run_sweep\<close>, before the releases. The texts that the \<^verbatim>\<open>finally\<close>
  block prints are fixed.
\<close>

definition sweep_exit :: "environment \<Rightarrow> string \<Rightarrow> outcome \<Rightarrow> sweep_state \<Rightarrow> exn option \<times> sweep_state" where
  "sweep_exit E location_path out st1 =
     (let (pending, st2) =
            (case out of
               Raised e \<Rightarrow> if is_Exception e then handler E location_path e st1 else (Some e, st1)
             | _ \<Rightarrow> (None, st1))
      in case sync_to_storage E st2 of
           (Some e, st3) \<Rightarrow> (Some e, st3)
         | (None, st3) \<Rightarrow>
             (pending, st3\<lparr>trace := trace st3 @ [Close_sweep_db, Close_archives_db, Temp_cleanup]\<rparr>))"

text \<open>
  \<^verbatim>\<open>run_sweep\<close>: the \<^verbatim>\<open>try\<close> block, then the handler and the \<^verbatim>\<open>finally\<close> block. The
  result is the exception that leaves \<^verbatim>\<open>run_sweep\<close>, if any, and the final state. The
  tracking database is the staging copy that the constructor of \<^verbatim>\<open>SweepDB\<close> has opened.
\<close>

definition run_sweep ::
  "environment \<Rightarrow> catalog \<Rightarrow> string \<Rightarrow> string \<Rightarrow> string list \<Rightarrow> sweep_state \<Rightarrow> exn option \<times> sweep_state"
where
  "run_sweep E C location_path file_server_mount inputs st =
     (let (out, st1) = sweep_try E C location_path file_server_mount inputs st
      in sweep_exit E location_path out st1)"

section \<open>Notions used to state the properties\<close>

text \<open>The path that the delete command hands to the Archives App API for a location.\<close>

definition delete_path :: "string \<Rightarrow> location \<Rightarrow> string" where
  "delete_path file_server_mount loc =
     str_path (build_file_path file_server_mount (file_server_directories loc) (Some (filename loc)))"

text \<open>
  What the API reports for a list of paths requested one after the other, the first of
  them being request number k.
\<close>

fun attempts :: "environment \<Rightarrow> nat \<Rightarrow> string list \<Rightarrow> (string \<times> bool) list" where
  "attempts E k [] = []"
| "attempts E k (p # ps) = (p, fst (enqueue_delete_edit E k p)) # attempts E (Suc k) ps"

text \<open>
  The requests that the delete loop makes for a selection when it starts in a state, each
  with what the API reports for it.
\<close>

definition requests ::
  "environment \<Rightarrow> string \<Rightarrow> location list \<Rightarrow> int list \<Rightarrow> sweep_state \<Rightarrow> (string \<times> bool) list"
where
  "requests E file_server_mount all_locations nums st =
     attempts E (length (filter is_enqueue (trace st)))
       (map (\<lambda>n. delete_path file_server_mount (all_locations ! nat (n - 1))) nums)"

text \<open>The list \<^verbatim>\<open>valid_numbers\<close> of the delete command.\<close>

definition valid_numbers :: "location list \<Rightarrow> int list \<Rightarrow> int list" where
  "valid_numbers all_locations numbers =
     filter (\<lambda>n. 1 \<le> n \<and> n \<le> int (length all_locations)) numbers"

text \<open>The invariant of the table \<^verbatim>\<open>processed_files\<close>: no file id occurs in two rows.\<close>

definition file_ids_unique :: "sweep_db \<Rightarrow> bool" where
  "file_ids_unique D \<longleftrightarrow> distinct (map pf_archives_app_file_id (processed_files D))"

section \<open>A scenario\<close>

text \<open>
  The file with id 7 at the two locations \<^verbatim>\<open>A/x.dwg\<close> and \<^verbatim>\<open>B/x.dwg\<close>, a second file
  with id 8 next to it at \<^verbatim>\<open>A\<close>, an empty tracking database, and an environment in
  which nothing fails and no time passes: there is no symbolic link, the console prints
  every text, and the answers end with the end of the input stream.
\<close>

definition scenario_locations :: "location list" where
  "scenario_locations =
     [\<lparr>file_server_directories = ''A'', filename = ''x.dwg'', size_bytes = 500000\<rparr>,
      \<lparr>file_server_directories = ''B'', filename = ''x.dwg'', size_bytes = 500000\<rparr>]"

definition scenario_catalog :: catalog where
  "scenario_catalog =
     \<lparr>files = [\<lparr>f_id = 7, f_size = 500000\<rparr>, \<lparr>f_id = 8, f_size = 12\<rparr>],
      file_locations =
        [\<lparr>fl_file_id = 7, fl_file_server_directories = ''A'', fl_filename = ''x.dwg''\<rparr>,
         \<lparr>fl_file_id = 7, fl_file_server_directories = ''B'', fl_filename = ''x.dwg''\<rparr>,
         \<lparr>fl_file_id = 8, fl_file_server_directories = ''A'', fl_filename = ''y.txt''\<rparr>]\<rparr>"

definition empty_db :: sweep_db where
  "empty_db = \<lparr>processed_locations = [], processed_files = [], deleted_files = [], errors = []\<rparr>"

definition fresh_state :: sweep_state where
  "fresh_state = \<lparr>db = empty_db, storage = None, trace = []\<rparr>"

definition quiet_environment :: environment where
  "quiet_environment =
     \<lparr>getcwd = ''/work'', os_path_expanduser = (\<lambda>s. s), symlinks = [],
      resolve_at_loop = (\<lambda>s. Inl (RuntimeError (''Symlink loop from '' @ s))), time_time = (\<lambda>k. 0),
      sync_error = (\<lambda>k. None), delete_error = (\<lambda>k p. None),
      console_print = (\<lambda>s. None), debug = False, format_exc = (\<lambda>e. []),
      interrupted = False\<rparr>"

section \<open>Notions about the trace\<close>

fun is_display :: "event \<Rightarrow> bool" where
  "is_display (Display_file_locations file_id) = True"
| "is_display ev = False"

text \<open>An event that is neither a sync nor the presentation of a file.\<close>

definition inner_event :: "event \<Rightarrow> bool" where
  "inner_event ev \<longleftrightarrow> \<not> is_sync ev \<and> \<not> is_display ev"

text \<open>
  The prints of the handler succeed for an exception; the \<^verbatim>\<open>try\<close> block has ended with an
  exception that the handler catches and prints, which is when the handler writes its
  row; and the message of that row.
\<close>

definition handler_prints :: "environment \<Rightarrow> exn \<Rightarrow> bool" where
  "handler_prints E e \<longleftrightarrow>
     console_print E (''[red]Error during sweep: '' @ str_exn e @ ''[/red]'') = None \<and>
     (if debug E then console_print E (format_exc E e) = None else True)"

definition caught_and_printed :: "environment \<Rightarrow> outcome \<Rightarrow> bool" where
  "caught_and_printed E out =
     (case out of Raised e \<Rightarrow> is_Exception e \<and> handler_prints E e | _ \<Rightarrow> False)"

definition message_of :: "outcome \<Rightarrow> string" where
  "message_of out = (case out of Raised e \<Rightarrow> str_exn e | _ \<Rightarrow> [])"

text \<open>
  A block that ended with the outcome \<open>out\<close> made the calls \<open>tr\<close>, and a sync that
  failed, if there is one among them, is the last call of the block and its exception is
  how the block ended.
\<close>

definition failed_sync_is_last :: "outcome \<Rightarrow> event list \<Rightarrow> bool" where
  "failed_sync_is_last out tr \<longleftrightarrow>
     (Sync_to_storage False \<in> set tr \<longrightarrow>
        (\<exists>msg tr0. out = Raised (OSError msg) \<and> tr = tr0 @ [Sync_to_storage False] \<and>
                   Sync_to_storage False \<notin> set tr0))"

text \<open>
  A catalog in which the sweep of \<^verbatim>\<open>A\<close> finds two files: each of the files 7 and 8 has
  two entries at \<^verbatim>\<open>A\<close>.
\<close>

definition crowded_catalog :: catalog where
  "crowded_catalog =
     \<lparr>files = [\<lparr>f_id = 7, f_size = 500000\<rparr>, \<lparr>f_id = 8, f_size = 12\<rparr>],
      file_locations =
        [\<lparr>fl_file_id = 7, fl_file_server_directories = ''A'', fl_filename = ''x.dwg''\<rparr>,
         \<lparr>fl_file_id = 7, fl_file_server_directories = ''A'', fl_filename = ''x copy.dwg''\<rparr>,
         \<lparr>fl_file_id = 8, fl_file_server_directories = ''A'', fl_filename = ''y.txt''\<rparr>,
         \<lparr>fl_file_id = 8, fl_file_server_directories = ''A'', fl_filename = ''y old.txt''\<rparr>,
         \<lparr>fl_file_id = 7, fl_file_server_directories = ''B'', fl_filename = ''x.dwg''\<rparr>]\<rparr>"

text \<open>
  An environment in which more than ten minutes pass between two readings of the clock
  and the first sync fails.
\<close>

definition flaky_environment :: environment where
  "flaky_environment =
     quiet_environment
       \<lparr>time_time := (\<lambda>k. 700 * int k),
        sync_error := (\<lambda>k. if k = 0 then Some ''disk full'' else None)\<rparr>"

text \<open>An environment in which the operator ends the answers with \<^verbatim>\<open>Ctrl-C\<close>.\<close>

definition interrupted_environment :: environment where
  "interrupted_environment = quiet_environment\<lparr>interrupted := True\<rparr>"

text \<open>
  An environment with the console of Rich for one text: the handler's print of the
  \<^verbatim>\<open>ValueError\<close> for the location \<^verbatim>\<open>/other/[/x]\<close>, which is not under the mount
  \<^verbatim>\<open>/mnt\<close>. The message has a closing tag in it that matches no open tag.
\<close>

definition markup_environment :: environment where
  "markup_environment =
     quiet_environment
       \<lparr>console_print :=
          (\<lambda>s. if s = ''[red]Error during sweep: /other/[/x] is not under /mnt[/red]''
               then Some (''closing tag '' @ [CHR 0x27] @ ''[/x]'' @ [CHR 0x27] @
                          '' at position 32 doesn'' @ [CHR 0x27] @ ''t match any open tag'')
               else None)\<rparr>"

text \<open>A ledger in which file 7 is recorded as processed, and a state that starts on it.\<close>

definition ledger_with_7 :: sweep_db where
  "ledger_with_7 =
     empty_db\<lparr>processed_files :=
       [\<lparr>pf_id = 1, pf_archives_app_file_id = 7, pf_processed_location_id = 1,
         pf_decision = ''kept_all''\<rparr>]\<rparr>"

definition state_with_7 :: sweep_state where
  "state_with_7 = \<lparr>db = ledger_with_7, storage = Some ledger_with_7, trace = []\<rparr>"

section \<open>Notions about discovery and about paths\<close>

text \<open>
  The discovery operation as the specification words it: the entries at the target
  location of the files that have more than one location anywhere in the catalog, each
  with the number of locations of its file in the whole catalog.
\<close>

definition findDuplicates :: "catalog \<Rightarrow> string \<Rightarrow> file_record list" where
  "findDuplicates C canonicalLocation =
     [\<lparr>file_server_directories = fl_file_server_directories fl,
       filename = fl_filename fl,
       size_bytes = f_size f,
       archives_app_file_id = fl_file_id fl,
       loc_count = length (get_all_locations_for_file C (fl_file_id fl))\<rparr>.
        (fl, f) \<leftarrow> locs_rows C canonicalLocation,
        1 < length (get_all_locations_for_file C (fl_file_id fl))]"

text \<open>
  The segments of a canonical relative path: there is at least one, and each is a name,
  which is not empty, has no slash in it, and is neither \<^verbatim>\<open>.\<close> nor \<^verbatim>\<open>..\<close>. The path
  itself is the segments joined with slashes.
\<close>

definition canonical_segments :: "string list \<Rightarrow> bool" where
  "canonical_segments segs \<longleftrightarrow>
     segs \<noteq> [] \<and>
     list_all (\<lambda>s. s \<noteq> [] \<and> CHR ''/'' \<notin> set s \<and> s \<noteq> ''.'' \<and> s \<noteq> ''..'') segs"





section \<open>Properties of the filter pipeline\<close>

lemma excluded_by_iff: "excluded_by fs r \<longleftrightarrow> (\<exists>f \<in> set fs. f r)"
  by (induction fs) auto

lemma apply_filters_with_filter:
  "apply_filters_with fs rs = filter (\<lambda>r. \<not> (\<exists>f \<in> set fs. f r)) rs"
  by (induction rs) (simp_all add: excluded_by_iff)

text \<open>
  Claim C8. For every sequence of records and every list of predicates, the pipeline
  returns the subsequence of the records that no predicate excludes, in the input's order,
  and two predicate lists that are permutations of each other return the same records, so
  the records they exclude are the same too.
\<close>

theorem apply_filters_subsequence_any_order:
  "apply_filters_with fs rs = filter (\<lambda>r. \<not> (\<exists>f \<in> set fs. f r)) rs \<and>
   (mset fs = mset fs' \<longrightarrow>
      apply_filters_with fs' rs = apply_filters_with fs rs \<and>
      {r \<in> set rs. r \<notin> set (apply_filters_with fs' rs)} =
      {r \<in> set rs. r \<notin> set (apply_filters_with fs rs)})"
proof -
  have sub: "apply_filters_with fs rs = filter (\<lambda>r. \<not> (\<exists>f \<in> set fs. f r)) rs"
    by (rule apply_filters_with_filter)
  have "apply_filters_with fs' rs = apply_filters_with fs rs" if "mset fs = mset fs'"
  proof -
    from that have "set fs = set fs'" by (rule mset_eq_setD)
    then show ?thesis by (simp add: apply_filters_with_filter)
  qed
  with sub show ?thesis by simp
qed

theorem apply_filters_subsequence_any_order_witness:
  "mset [no_filter, exclude_system_files] = mset [exclude_system_files, no_filter] \<and>
   apply_filters_with [exclude_system_files, no_filter]
     [\<lparr>file_server_directories = ''A'', filename = ''Thumbs.db'', size_bytes = 10,
       archives_app_file_id = 7, loc_count = 2\<rparr>,
      \<lparr>file_server_directories = ''A'', filename = ''x.dwg'', size_bytes = 500000,
       archives_app_file_id = 8, loc_count = 2\<rparr>] =
   apply_filters_with [no_filter, exclude_system_files]
     [\<lparr>file_server_directories = ''A'', filename = ''Thumbs.db'', size_bytes = 10,
       archives_app_file_id = 7, loc_count = 2\<rparr>,
      \<lparr>file_server_directories = ''A'', filename = ''x.dwg'', size_bytes = 500000,
       archives_app_file_id = 8, loc_count = 2\<rparr>] \<and>
   apply_filters_with [no_filter, exclude_system_files]
     [\<lparr>file_server_directories = ''A'', filename = ''Thumbs.db'', size_bytes = 10,
       archives_app_file_id = 7, loc_count = 2\<rparr>,
      \<lparr>file_server_directories = ''A'', filename = ''x.dwg'', size_bytes = 500000,
       archives_app_file_id = 8, loc_count = 2\<rparr>] =
     [\<lparr>file_server_directories = ''A'', filename = ''x.dwg'', size_bytes = 500000,
       archives_app_file_id = 8, loc_count = 2\<rparr>]"
proof -
  have perm: "mset [no_filter, exclude_system_files] = mset [exclude_system_files, no_filter]"
    by (simp add: add_mset_commute)
  have low: "lower ''Thumbs.db'' = ''thumbs.db''" "lower ''x.dwg'' = ''x.dwg''"
    by (simp_all add: lower_def lower_char_def)
  show ?thesis
    using perm
      apply_filters_subsequence_any_order
        [of "[no_filter, exclude_system_files]"
            "[\<lparr>file_server_directories = ''A'', filename = ''Thumbs.db'', size_bytes = 10,
               archives_app_file_id = 7, loc_count = 2\<rparr>,
              \<lparr>file_server_directories = ''A'', filename = ''x.dwg'', size_bytes = 500000,
               archives_app_file_id = 8, loc_count = 2\<rparr>]"
            "[exclude_system_files, no_filter]"]
    by (simp add: no_filter_def exclude_system_files_def low)
qed

section \<open>The writes and the delete loop\<close>

lemma write_deleted_file_simps:
  "trace (write_deleted_file st p path sz) = trace st @ [Record_deleted_file path sz]"
  "storage (write_deleted_file st p path sz) = storage st"
  "db (write_deleted_file st p path sz) = record_deleted_file (db st) p path sz"
  by (simp_all add: write_deleted_file_def)

lemma write_error_simps:
  "trace (write_error st op m c) = trace st @ [Log_error op m c]"
  "storage (write_error st op m c) = storage st"
  "db (write_error st op m c) = log_error (db st) op m c"
  by (simp_all add: write_error_def)

lemma record_deleted_file_tables:
  "processed_files (record_deleted_file D p path sz) = processed_files D"
  "processed_locations (record_deleted_file D p path sz) = processed_locations D"
  "errors (record_deleted_file D p path sz) = errors D"
  "map (\<lambda>r. (df_processed_file_id r, df_path r)) (deleted_files (record_deleted_file D p path sz)) =
     map (\<lambda>r. (df_processed_file_id r, df_path r)) (deleted_files D) @ [(p, path)]"
  by (simp_all add: record_deleted_file_def)

lemma log_error_tables:
  "processed_files (log_error D op m c) = processed_files D"
  "processed_locations (log_error D op m c) = processed_locations D"
  "deleted_files (log_error D op m c) = deleted_files D"
  "map (\<lambda>r. (er_operation r, er_context r)) (errors (log_error D op m c)) =
     map (\<lambda>r. (er_operation r, er_context r)) (errors D) @ [(op, c)]"
  by (simp_all add: log_error_def)

lemma subscript_in_range:
  "1 \<le> n \<Longrightarrow> n \<le> int (length xs) \<Longrightarrow> subscript xs (n - 1) = Inr (xs ! nat (n - 1))"
  by (simp add: subscript_def)

lemma delete_each_step:
  assumes "1 \<le> num" "num \<le> int (length locs)"
  shows "delete_each E m pfid locs (num # nums) st =
     (let p = delete_path m (locs ! nat (num - 1));
          st1 = st\<lparr>trace := trace st @
                   [Enqueue_delete_edit p (delete_error E (length (filter is_enqueue (trace st))) p = None)]\<rparr>
      in case delete_error E (length (filter is_enqueue (trace st))) p of
           None \<Rightarrow> delete_each E m pfid locs nums
                     (write_deleted_file st1 pfid p (size_bytes (locs ! nat (num - 1))))
         | Some msg \<Rightarrow> delete_each E m pfid locs nums (write_error st1 ''delete'' msg (Some p)))"
  using assms
  by (simp add: subscript_in_range delete_path_def enqueue_delete_edit_def Let_def
           split: option.splits)

lemma delete_each_rows_aux:
  "\<forall>n \<in> set nums. 1 \<le> n \<and> n \<le> int (length locs) \<Longrightarrow>
   \<exists>st'. delete_each E m pfid locs nums st = (None, st') \<and>
     storage st' = storage st \<and>
     processed_files (db st') = processed_files (db st) \<and>
     processed_locations (db st') = processed_locations (db st) \<and>
     filter is_enqueue (trace st') =
       filter is_enqueue (trace st) @
       map (\<lambda>(p, ok). Enqueue_delete_edit p ok)
         (attempts E (length (filter is_enqueue (trace st)))
            (map (\<lambda>n. delete_path m (locs ! nat (n - 1))) nums)) \<and>
     map (\<lambda>r. (df_processed_file_id r, df_path r)) (deleted_files (db st')) =
       map (\<lambda>r. (df_processed_file_id r, df_path r)) (deleted_files (db st)) @
       map (\<lambda>(p, ok). (pfid, p))
         (filter snd (attempts E (length (filter is_enqueue (trace st)))
            (map (\<lambda>n. delete_path m (locs ! nat (n - 1))) nums))) \<and>
     map (\<lambda>r. (er_operation r, er_context r)) (errors (db st')) =
       map (\<lambda>r. (er_operation r, er_context r)) (errors (db st)) @
       map (\<lambda>(p, ok). (''delete'', Some p))
         (filter (\<lambda>(p, ok). \<not> ok) (attempts E (length (filter is_enqueue (trace st)))
            (map (\<lambda>n. delete_path m (locs ! nat (n - 1))) nums)))"
proof (induction nums arbitrary: st)
  case Nil
  then show ?case by simp
next
  case (Cons num nums)
  then have rng: "1 \<le> num" "num \<le> int (length locs)"
    and rest: "\<forall>n \<in> set nums. 1 \<le> n \<and> n \<le> int (length locs)"
    by simp_all
  let ?p = "delete_path m (locs ! nat (num - 1))"
  let ?k = "length (filter is_enqueue (trace st))"
  show ?case
  proof (cases "delete_error E ?k ?p")
    case None
    let ?st2 = "write_deleted_file
        (st\<lparr>trace := trace st @ [Enqueue_delete_edit ?p True]\<rparr>) pfid ?p
        (size_bytes (locs ! nat (num - 1)))"
    from Cons.IH [OF rest, of ?st2] obtain st' where
      ih: "delete_each E m pfid locs nums ?st2 = (None, st')"
          "storage st' = storage ?st2"
          "processed_files (db st') = processed_files (db ?st2)"
          "processed_locations (db st') = processed_locations (db ?st2)"
          "filter is_enqueue (trace st') =
             filter is_enqueue (trace ?st2) @
             map (\<lambda>(p, ok). Enqueue_delete_edit p ok)
               (attempts E (length (filter is_enqueue (trace ?st2)))
                  (map (\<lambda>n. delete_path m (locs ! nat (n - 1))) nums))"
          "map (\<lambda>r. (df_processed_file_id r, df_path r)) (deleted_files (db st')) =
             map (\<lambda>r. (df_processed_file_id r, df_path r)) (deleted_files (db ?st2)) @
             map (\<lambda>(p, ok). (pfid, p))
               (filter snd (attempts E (length (filter is_enqueue (trace ?st2)))
                  (map (\<lambda>n. delete_path m (locs ! nat (n - 1))) nums)))"
          "map (\<lambda>r. (er_operation r, er_context r)) (errors (db st')) =
             map (\<lambda>r. (er_operation r, er_context r)) (errors (db ?st2)) @
             map (\<lambda>(p, ok). (''delete'', Some p))
               (filter (\<lambda>(p, ok). \<not> ok) (attempts E (length (filter is_enqueue (trace ?st2)))
                  (map (\<lambda>n. delete_path m (locs ! nat (n - 1))) nums)))"
      by blast
    have k2: "length (filter is_enqueue (trace ?st2)) = Suc ?k"
      by (simp add: write_deleted_file_simps)
    have "delete_each E m pfid locs (num # nums) st = (None, st')"
      by (subst delete_each_step [OF rng]) (use ih(1) None in \<open>simp add: Let_def\<close>)
    with ih(2-) None show ?thesis
      by (simp add: k2 write_deleted_file_simps record_deleted_file_tables
            enqueue_delete_edit_def)
  next
    case (Some msg)
    let ?st2 = "write_error
        (st\<lparr>trace := trace st @ [Enqueue_delete_edit ?p False]\<rparr>) ''delete'' msg (Some ?p)"
    from Cons.IH [OF rest, of ?st2] obtain st' where
      ih: "delete_each E m pfid locs nums ?st2 = (None, st')"
          "storage st' = storage ?st2"
          "processed_files (db st') = processed_files (db ?st2)"
          "processed_locations (db st') = processed_locations (db ?st2)"
          "filter is_enqueue (trace st') =
             filter is_enqueue (trace ?st2) @
             map (\<lambda>(p, ok). Enqueue_delete_edit p ok)
               (attempts E (length (filter is_enqueue (trace ?st2)))
                  (map (\<lambda>n. delete_path m (locs ! nat (n - 1))) nums))"
          "map (\<lambda>r. (df_processed_file_id r, df_path r)) (deleted_files (db st')) =
             map (\<lambda>r. (df_processed_file_id r, df_path r)) (deleted_files (db ?st2)) @
             map (\<lambda>(p, ok). (pfid, p))
               (filter snd (attempts E (length (filter is_enqueue (trace ?st2)))
                  (map (\<lambda>n. delete_path m (locs ! nat (n - 1))) nums)))"
          "map (\<lambda>r. (er_operation r, er_context r)) (errors (db st')) =
             map (\<lambda>r. (er_operation r, er_context r)) (errors (db ?st2)) @
             map (\<lambda>(p, ok). (''delete'', Some p))
               (filter (\<lambda>(p, ok). \<not> ok) (attempts E (length (filter is_enqueue (trace ?st2)))
                  (map (\<lambda>n. delete_path m (locs ! nat (n - 1))) nums)))"
      by blast
    have k2: "length (filter is_enqueue (trace ?st2)) = Suc ?k"
      by (simp add: write_error_simps)
    have "delete_each E m pfid locs (num # nums) st = (None, st')"
      by (subst delete_each_step [OF rng]) (use ih(1) Some in \<open>simp add: Let_def\<close>)
    with ih(2-) Some show ?thesis
      by (simp add: k2 write_error_simps log_error_tables enqueue_delete_edit_def)
  qed
qed

section \<open>The prompt loop, command by command\<close>

lemma parse_open_numbers:
  "fst (parse_user_command inp) = ''open'' \<Longrightarrow> \<exists>num. snd (parse_user_command inp) = [num]"
  by (auto simp: parse_user_command_def Let_def split: if_splits list.splits option.splits)

lemma prompt_loop_invalid:
  "fst (parse_user_command inp) = ''invalid'' \<Longrightarrow>
   prompt_loop E m lid fid locs (inp # rest) st = prompt_loop E m lid fid locs rest st"
  by simp

lemma prompt_loop_skip:
  "fst (parse_user_command inp) = ''skip'' \<Longrightarrow>
   prompt_loop E m lid fid locs (inp # rest) st = (Finished, rest, st)"
  by simp

lemma prompt_loop_quit:
  "fst (parse_user_command inp) = ''quit'' \<Longrightarrow>
   prompt_loop E m lid fid locs (inp # rest) st =
     (case sync_to_storage E st of
        (Some e, st1) \<Rightarrow> (Raised e, rest, st1)
      | (None, st1) \<Rightarrow> (Returned, rest, st1\<lparr>trace := trace st1 @ [Temp_cleanup]\<rparr>))"
  by simp

lemma prompt_loop_keep:
  "fst (parse_user_command inp) = ''keep'' \<Longrightarrow>
   prompt_loop E m lid fid locs (inp # rest) st =
     (case write_processed_file st fid lid ''kept_all'' of
        (Inl e, st1) \<Rightarrow> (Raised e, rest, st1)
      | (Inr processed_file_id, st1) \<Rightarrow> (Finished, rest, st1))"
  by simp

lemma prompt_loop_delete:
  "fst (parse_user_command inp) = ''delete'' \<Longrightarrow>
   prompt_loop E m lid fid locs (inp # rest) st =
     (let valid_numbers = filter (\<lambda>n. 1 \<le> n \<and> n \<le> int (length locs)) (snd (parse_user_command inp)) in
         if valid_numbers = [] then
           prompt_loop E m lid fid locs rest st
         else
           (case rest of
              [] \<Rightarrow> (Raised (end_of_answers E), [], st)
            | confirm # rest' \<Rightarrow>
                if lower confirm \<notin> set [''yes'', ''y''] then
                  prompt_loop E m lid fid locs rest' st
                else
                  (let decision = (if length valid_numbers = length locs
                                   then ''deleted_all'' else ''deleted_some'')
                   in case write_processed_file st fid lid decision of
                        (Inl e, st1) \<Rightarrow> (Raised e, rest', st1)
                      | (Inr processed_file_id, st1) \<Rightarrow>
                          (case delete_each E m processed_file_id
                                  locs valid_numbers st1 of
                             (Some e, st2) \<Rightarrow> (Raised e, rest', st2)
                           | (None, st2) \<Rightarrow> (Finished, rest', st2)))))"
  by (simp add: Let_def)

lemma parse_cases:
  "fst (parse_user_command inp) \<in> {''invalid'', ''keep'', ''skip'', ''quit'', ''open'', ''delete''}"
  by (auto simp: parse_user_command_def Let_def split: if_splits list.splits option.splits)

lemma prompt_loop_open:
  "fst (parse_user_command inp) = ''open'' \<Longrightarrow>
   prompt_loop E m lid fid locs (inp # rest) st =
     (case snd (parse_user_command inp) of
        [] \<Rightarrow> (Raised (IndexError ''list index out of range''), rest, st)
      | num # _ \<Rightarrow>
          if 1 \<le> num \<and> num \<le> int (length locs) then
            prompt_loop E m lid fid locs rest
              (st\<lparr>trace := trace st @ [Copy_and_open (delete_path m (locs ! nat (num - 1)))]\<rparr>)
          else prompt_loop E m lid fid locs rest st)"
  by (simp add: subscript_in_range delete_path_def split: list.splits)

declare prompt_loop.simps(2) [simp del]

lemma write_processed_file_new:
  "\<not> is_file_processed (db st) fid \<Longrightarrow>
   write_processed_file st fid lid dec =
     (Inr (lastrowid (map pf_id (processed_files (db st)))),
      st\<lparr>db := (db st)\<lparr>processed_files := processed_files (db st) @
              [\<lparr>pf_id = lastrowid (map pf_id (processed_files (db st))),
                pf_archives_app_file_id = fid, pf_processed_location_id = lid,
                pf_decision = dec\<rparr>]\<rparr>,
         trace := trace st @ [Record_processed_file fid dec]\<rparr>)"
  by (simp add: write_processed_file_def record_processed_file_def is_file_processed_def Let_def)

lemma write_processed_file_known:
  "is_file_processed (db st) fid \<Longrightarrow>
   write_processed_file st fid lid dec =
     (Inl (IntegrityError ''UNIQUE constraint failed: processed_files.archives_app_file_id''), st)"
  by (simp add: write_processed_file_def record_processed_file_def is_file_processed_def)

lemma sync_to_storage_db: "db (snd (sync_to_storage E st)) = db st"
  by (simp add: sync_to_storage_def split: option.splits)

text \<open>
  A selection without repeats has as many numbers as there are locations exactly when it
  names every location.
\<close>

lemma distinct_selection_covers_all:
  assumes "distinct valid" and "\<forall>n \<in> set valid. 1 \<le> n \<and> n \<le> int N"
  shows "length valid = N \<longleftrightarrow> set valid = {1..int N}"
proof -
  have sub: "set valid \<subseteq> {1..int N}" using assms(2) by auto
  have card: "card (set valid) = length valid" using assms(1) by (rule distinct_card)
  show ?thesis
  proof
    assume "length valid = N"
    with card have "card (set valid) = card {1..int N}" by simp
    with sub show "set valid = {1..int N}" by (simp add: card_subset_eq)
  next
    assume "set valid = {1..int N}"
    with card show "length valid = N" by simp
  qed
qed

section \<open>The skip command\<close>

text \<open>
  Claim C9. The skip command writes nothing: the prompt loop of the file ends with the
  state it was given, so the four tables are what they were; after the whole pass of the
  review loop over that file, which may sync, the tracking database is still the same,
  and the file is recorded as processed after the skip exactly if it was before.
\<close>

theorem skip_writes_nothing:
  assumes "fst (parse_user_command user_input) = ''skip''"
  shows "prompt_loop E m lid fid locs (user_input # rest) st = (Finished, rest, st) \<and>
         db (snd (review_files E C m lid idx t0 [fid] (user_input # rest) st)) = db st \<and>
         is_file_processed (db (snd (review_files E C m lid idx t0 [fid] (user_input # rest) st))) fid
           = is_file_processed (db st) fid"
proof -
  have a: "prompt_loop E m lid fid locs (user_input # rest) st = (Finished, rest, st)" for locs st
    using assms by (rule prompt_loop_skip)
  let ?st1 = "st\<lparr>trace := trace st @ [Display_file_locations fid]\<rparr>"
  have b: "db (snd (review_files E C m lid idx t0 [fid] (user_input # rest) st)) = db st"
  proof (cases "subscript (get_all_locations_for_file C fid) 0")
    case (Inl e)
    then show ?thesis by simp
  next
    case (Inr loc)
    show ?thesis
    proof (cases "time_time E idx - t0 \<ge> sync_interval")
      case True
      obtain r st2 where s: "sync_to_storage E ?st1 = (r, st2)" by (cases "sync_to_storage E ?st1")
      with sync_to_storage_db [of E ?st1] have "db st2 = db st" by simp
      with Inr True s show ?thesis by (cases r) (simp_all add: a)
    next
      case False
      with Inr show ?thesis by (simp add: a)
    qed
  qed
  show ?thesis using a b by simp
qed

text \<open>
  The operator answers \<^verbatim>\<open> S \<close> at file 7 of the scenario, on an empty tracking
  database: the prompt loop ends with the state it was given, and file 7 is not recorded
  as processed after the pass of the review loop.
\<close>

theorem skip_writes_nothing_witness:
  "fst (parse_user_command '' S '') = ''skip'' \<and>
   prompt_loop quiet_environment ''/mnt'' 1 7 scenario_locations ['' S '', ''c''] fresh_state =
     (Finished, [''c''], fresh_state) \<and>
   db (snd (review_files quiet_environment scenario_catalog ''/mnt'' 1 1 0 [7] ['' S '', ''c'']
              fresh_state)) = empty_db \<and>
   \<not> is_file_processed
       (db (snd (review_files quiet_environment scenario_catalog ''/mnt'' 1 1 0 [7] ['' S '', ''c'']
                   fresh_state))) 7"
proof -
  have p: "fst (parse_user_command '' S '') = ''skip''"
    by (simp add: parse_user_command_def strip_def isspace_def lower_def lower_char_def)
  show ?thesis
    using p skip_writes_nothing [OF p, of quiet_environment "''/mnt''" 1 7 scenario_locations
        "[''c'']" fresh_state scenario_catalog 1 0]
    by (simp add: is_file_processed_def fresh_state_def empty_db_def)
qed

section \<open>The delete command\<close>


lemma prompt_loop_delete_confirmed:
  assumes parse: "parse_user_command user_input = (''delete'', numbers)"
      and valid: "filter (\<lambda>n. 1 \<le> n \<and> n \<le> int (length locs)) numbers \<noteq> []"
      and yes: "lower confirm \<in> {''yes'', ''y''}"
      and new: "\<not> is_file_processed (db st) fid"
  shows "\<exists>st'. prompt_loop E m lid fid locs (user_input # confirm # rest) st = (Finished, rest, st') \<and>
     storage st' = storage st \<and>
     processed_locations (db st') = processed_locations (db st) \<and>
     processed_files (db st') = processed_files (db st) @
       [\<lparr>pf_id = lastrowid (map pf_id (processed_files (db st))),
         pf_archives_app_file_id = fid, pf_processed_location_id = lid,
         pf_decision =
           (if length (filter (\<lambda>n. 1 \<le> n \<and> n \<le> int (length locs)) numbers) = length locs
            then ''deleted_all'' else ''deleted_some'')\<rparr>] \<and>
     filter is_enqueue (trace st') =
       filter is_enqueue (trace st) @
       map (\<lambda>(p, ok). Enqueue_delete_edit p ok)
         (attempts E (length (filter is_enqueue (trace st)))
            (map (\<lambda>n. delete_path m (locs ! nat (n - 1)))
               (filter (\<lambda>n. 1 \<le> n \<and> n \<le> int (length locs)) numbers))) \<and>
     map (\<lambda>r. (df_processed_file_id r, df_path r)) (deleted_files (db st')) =
       map (\<lambda>r. (df_processed_file_id r, df_path r)) (deleted_files (db st)) @
       map (\<lambda>(p, ok). (lastrowid (map pf_id (processed_files (db st))), p))
         (filter snd (attempts E (length (filter is_enqueue (trace st)))
            (map (\<lambda>n. delete_path m (locs ! nat (n - 1)))
               (filter (\<lambda>n. 1 \<le> n \<and> n \<le> int (length locs)) numbers)))) \<and>
     map (\<lambda>r. (er_operation r, er_context r)) (errors (db st')) =
       map (\<lambda>r. (er_operation r, er_context r)) (errors (db st)) @
       map (\<lambda>(p, ok). (''delete'', Some p))
         (filter (\<lambda>(p, ok). \<not> ok) (attempts E (length (filter is_enqueue (trace st)))
            (map (\<lambda>n. delete_path m (locs ! nat (n - 1)))
               (filter (\<lambda>n. 1 \<le> n \<and> n \<le> int (length locs)) numbers))))"
proof -
  let ?valid = "filter (\<lambda>n. 1 \<le> n \<and> n \<le> int (length locs)) numbers"
  let ?dec = "if length ?valid = length locs then ''deleted_all'' else ''deleted_some''"
  let ?pfid = "lastrowid (map pf_id (processed_files (db st)))"
  let ?st1 = "st\<lparr>db := (db st)\<lparr>processed_files := processed_files (db st) @
              [\<lparr>pf_id = ?pfid, pf_archives_app_file_id = fid, pf_processed_location_id = lid,
                pf_decision = ?dec\<rparr>]\<rparr>,
         trace := trace st @ [Record_processed_file fid ?dec]\<rparr>"
  have w: "write_processed_file st fid lid ?dec = (Inr ?pfid, ?st1)"
    using new by (rule write_processed_file_new)
  have rng: "\<forall>n \<in> set ?valid. 1 \<le> n \<and> n \<le> int (length locs)" by simp
  from delete_each_rows_aux [OF rng, of E m ?pfid ?st1] obtain st' where
    d: "delete_each E m ?pfid locs ?valid ?st1 = (None, st')"
       "storage st' = storage ?st1"
       "processed_files (db st') = processed_files (db ?st1)"
       "processed_locations (db st') = processed_locations (db ?st1)"
       "filter is_enqueue (trace st') =
         filter is_enqueue (trace ?st1) @
         map (\<lambda>(p, ok). Enqueue_delete_edit p ok)
           (attempts E (length (filter is_enqueue (trace ?st1)))
              (map (\<lambda>n. delete_path m (locs ! nat (n - 1))) ?valid))"
       "map (\<lambda>r. (df_processed_file_id r, df_path r)) (deleted_files (db st')) =
         map (\<lambda>r. (df_processed_file_id r, df_path r)) (deleted_files (db ?st1)) @
         map (\<lambda>(p, ok). (?pfid, p))
           (filter snd (attempts E (length (filter is_enqueue (trace ?st1)))
              (map (\<lambda>n. delete_path m (locs ! nat (n - 1))) ?valid)))"
       "map (\<lambda>r. (er_operation r, er_context r)) (errors (db st')) =
         map (\<lambda>r. (er_operation r, er_context r)) (errors (db ?st1)) @
         map (\<lambda>(p, ok). (''delete'', Some p))
           (filter (\<lambda>(p, ok). \<not> ok) (attempts E (length (filter is_enqueue (trace ?st1)))
              (map (\<lambda>n. delete_path m (locs ! nat (n - 1))) ?valid)))"
    by blast
  have run: "prompt_loop E m lid fid locs (user_input # confirm # rest) st = (Finished, rest, st')"
    using parse valid yes by (simp add: prompt_loop_delete Let_def w d(1))
  show ?thesis
    using run d(2-) by simp
qed

lemma delete_path_A: "delete_path ''/mnt''
     \<lparr>file_server_directories = ''A'', filename = ''x.dwg'', size_bytes = 500000\<rparr> = ''/mnt/A/x.dwg''"
  by (simp add: delete_path_def build_file_path_def PurePosixPath_def splitroot_def parts_def
        joinpath_def join_segment_def str_path_def Let_def)

lemma parse_11: "parse_user_command ''1 1'' = (''delete'', [1, 1])"
  by (simp add: parse_user_command_def strip_def isspace_def lower_def lower_char_def
        startswith_def split_def py_int_def py_digits_def digit_value_def Let_def)

lemma delete_path_scenario:
  "delete_path ''/mnt'' (scenario_locations ! 0) = ''/mnt/A/x.dwg''"
  "delete_path ''/mnt'' (scenario_locations ! Suc 0) = ''/mnt/B/x.dwg''"
  by (simp_all add: scenario_locations_def delete_path_def build_file_path_def PurePosixPath_def
        splitroot_def parts_def joinpath_def join_segment_def str_path_def Let_def)

lemma length_scenario_locations: "length scenario_locations = 2"
  by (simp add: scenario_locations_def)

lemma parse_selections:
  "parse_user_command ''1 2 1'' = (''delete'', [1, 2, 1])"
  "parse_user_command ''1 1 9'' = (''delete'', [1, 1, 9])"
  "parse_user_command ''1 2'' = (''delete'', [1, 2])"
  by (simp_all add: parse_user_command_def strip_def isspace_def lower_def lower_char_def
        startswith_def split_def py_int_def py_digits_def digit_value_def Let_def)

lemma lower_yes: "lower ''yes'' = ''yes''" "lower ''Y'' = ''y''"
  by (simp_all add: lower_def lower_char_def)

lemma fresh_state_simps:
  "trace fresh_state = []" "storage fresh_state = None"
  "processed_files (db fresh_state) = []" "deleted_files (db fresh_state) = []"
  "errors (db fresh_state) = []" "processed_locations (db fresh_state) = []"
  "\<not> is_file_processed (db fresh_state) fid"
  by (simp_all add: fresh_state_def empty_db_def is_file_processed_def)


lemma prompt_loop_delete_requests:
  assumes "parse_user_command user_input = (''delete'', numbers)"
      and "valid_numbers locs numbers \<noteq> []"
      and "lower confirm \<in> {''yes'', ''y''}"
      and "\<not> is_file_processed (db st) fid"
  shows "\<exists>st'. prompt_loop E m lid fid locs (user_input # confirm # rest) st = (Finished, rest, st') \<and>
     storage st' = storage st \<and>
     processed_locations (db st') = processed_locations (db st) \<and>
     processed_files (db st') = processed_files (db st) @
       [\<lparr>pf_id = lastrowid (map pf_id (processed_files (db st))),
         pf_archives_app_file_id = fid, pf_processed_location_id = lid,
         pf_decision =
           (if length (valid_numbers locs numbers) = length locs
            then ''deleted_all'' else ''deleted_some'')\<rparr>] \<and>
     filter is_enqueue (trace st') =
       filter is_enqueue (trace st) @
       map (\<lambda>(p, ok). Enqueue_delete_edit p ok)
         (requests E m locs (valid_numbers locs numbers) st) \<and>
     map (\<lambda>r. (df_processed_file_id r, df_path r)) (deleted_files (db st')) =
       map (\<lambda>r. (df_processed_file_id r, df_path r)) (deleted_files (db st)) @
       map (\<lambda>(p, ok). (lastrowid (map pf_id (processed_files (db st))), p))
         (filter snd (requests E m locs (valid_numbers locs numbers) st)) \<and>
     map (\<lambda>r. (er_operation r, er_context r)) (errors (db st')) =
       map (\<lambda>r. (er_operation r, er_context r)) (errors (db st)) @
       map (\<lambda>(p, ok). (''delete'', Some p))
         (filter (\<lambda>(p, ok). \<not> ok) (requests E m locs (valid_numbers locs numbers) st))"
  unfolding requests_def valid_numbers_def
  using assms [unfolded valid_numbers_def] by (rule prompt_loop_delete_confirmed)

lemma requests_scenario:
  "requests quiet_environment ''/mnt'' scenario_locations [1, 1] fresh_state =
     [(''/mnt/A/x.dwg'', True), (''/mnt/A/x.dwg'', True)]"
  "requests quiet_environment ''/mnt'' scenario_locations [1, 2, 1] fresh_state =
     [(''/mnt/A/x.dwg'', True), (''/mnt/B/x.dwg'', True), (''/mnt/A/x.dwg'', True)]"
  "requests (quiet_environment\<lparr>delete_error := (\<lambda>k p. if k = 0 then Some ''timeout'' else None)\<rparr>)
     ''/mnt'' scenario_locations [1, 2] fresh_state =
     [(''/mnt/A/x.dwg'', False), (''/mnt/B/x.dwg'', True)]"
  by (simp_all add: requests_def fresh_state_simps delete_path_scenario enqueue_delete_edit_def
        quiet_environment_def)

lemma valid_numbers_scenario:
  "valid_numbers scenario_locations [1, 1, 9] = [1, 1]"
  "valid_numbers scenario_locations [1, 1] = [1, 1]"
  "valid_numbers scenario_locations [1, 2, 1] = [1, 2, 1]"
  by (simp_all add: valid_numbers_def length_scenario_locations)





section \<open>The decision of a delete command\<close>

lemma prompt_loop_scenario_delete:
  assumes p: "parse_user_command user_input = (''delete'', numbers)"
      and v: "valid_numbers scenario_locations numbers = valid"
      and ne: "valid \<noteq> []"
  shows "\<exists>st'. prompt_loop quiet_environment ''/mnt'' 1 7 scenario_locations [user_input, ''yes'']
             fresh_state = (Finished, [], st') \<and>
      map pf_decision (processed_files (db st')) =
        [if length valid = 2 then ''deleted_all'' else ''deleted_some''] \<and>
      filter is_enqueue (trace st') =
        map (\<lambda>(p, ok). Enqueue_delete_edit p ok)
          (requests quiet_environment ''/mnt'' scenario_locations valid fresh_state)"
proof -
  have v': "valid_numbers scenario_locations numbers \<noteq> []" using v ne by simp
  have y: "lower ''yes'' \<in> {''yes'', ''y''}" by (simp add: lower_yes)
  have n: "\<not> is_file_processed (db fresh_state) 7" by (simp add: fresh_state_simps)
  from prompt_loop_delete_requests [OF p v' y n, of quiet_environment "''/mnt''" 1 "[]"]
  obtain st' where all:
    "prompt_loop quiet_environment ''/mnt'' 1 7 scenario_locations [user_input, ''yes'']
        fresh_state = (Finished, [], st') \<and>
     storage st' = storage fresh_state \<and>
     processed_locations (db st') = processed_locations (db fresh_state) \<and>
     processed_files (db st') = processed_files (db fresh_state) @
       [\<lparr>pf_id = lastrowid (map pf_id (processed_files (db fresh_state))),
         pf_archives_app_file_id = 7, pf_processed_location_id = 1,
         pf_decision =
           (if length (valid_numbers scenario_locations numbers) = length scenario_locations
            then ''deleted_all'' else ''deleted_some'')\<rparr>] \<and>
     filter is_enqueue (trace st') =
       filter is_enqueue (trace fresh_state) @
       map (\<lambda>(p, ok). Enqueue_delete_edit p ok)
         (requests quiet_environment ''/mnt'' scenario_locations
            (valid_numbers scenario_locations numbers) fresh_state) \<and>
     map (\<lambda>r. (df_processed_file_id r, df_path r)) (deleted_files (db st')) =
       map (\<lambda>r. (df_processed_file_id r, df_path r)) (deleted_files (db fresh_state)) @
       map (\<lambda>(p, ok). (lastrowid (map pf_id (processed_files (db fresh_state))), p))
         (filter snd (requests quiet_environment ''/mnt'' scenario_locations
            (valid_numbers scenario_locations numbers) fresh_state)) \<and>
     map (\<lambda>r. (er_operation r, er_context r)) (errors (db st')) =
       map (\<lambda>r. (er_operation r, er_context r)) (errors (db fresh_state)) @
       map (\<lambda>(p, ok). (''delete'', Some p))
         (filter (\<lambda>(p, ok). \<not> ok) (requests quiet_environment ''/mnt'' scenario_locations
            (valid_numbers scenario_locations numbers) fresh_state))"
    ..
  note c3 = all [THEN conjunct2, THEN conjunct2, THEN conjunct2]
  have f1: "map pf_decision (processed_files (db fresh_state) @
       [\<lparr>pf_id = lastrowid (map pf_id (processed_files (db fresh_state))),
         pf_archives_app_file_id = 7, pf_processed_location_id = 1,
         pf_decision =
           (if length (valid_numbers scenario_locations numbers) = length scenario_locations
            then ''deleted_all'' else ''deleted_some'')\<rparr>]) =
        [if length valid = 2 then ''deleted_all'' else ''deleted_some'']"
    by (simp add: v fresh_state_simps length_scenario_locations)
  have f: "map pf_decision (processed_files (db st')) =
        [if length valid = 2 then ''deleted_all'' else ''deleted_some'']"
    using c3 [THEN conjunct1, THEN arg_cong, of "map pf_decision"] f1 by (rule trans)
  have e1: "filter is_enqueue (trace fresh_state) @
       map (\<lambda>(p, ok). Enqueue_delete_edit p ok)
         (requests quiet_environment ''/mnt'' scenario_locations
            (valid_numbers scenario_locations numbers) fresh_state) =
       map (\<lambda>(p, ok). Enqueue_delete_edit p ok)
          (requests quiet_environment ''/mnt'' scenario_locations valid fresh_state)"
    by (simp add: v fresh_state_simps)
  have e: "filter is_enqueue (trace st') =
        map (\<lambda>(p, ok). Enqueue_delete_edit p ok)
          (requests quiet_environment ''/mnt'' scenario_locations valid fresh_state)"
    using c3 [THEN conjunct2, THEN conjunct1] e1 by (rule trans)
  from all [THEN conjunct1] f e
  have fin: "prompt_loop quiet_environment ''/mnt'' 1 7 scenario_locations [user_input, ''yes'']
             fresh_state = (Finished, [], st') \<and>
      map pf_decision (processed_files (db st')) =
        [if length valid = 2 then ''deleted_all'' else ''deleted_some''] \<and>
      filter is_enqueue (trace st') =
        map (\<lambda>(p, ok). Enqueue_delete_edit p ok)
          (requests quiet_environment ''/mnt'' scenario_locations valid fresh_state)"
    by (intro conjI)
  show ?thesis by (rule exI [where x = st']) (rule fin)
qed

text \<open>
  Claim C2. The decision of a confirmed delete command is \<^verbatim>\<open>deleted_all\<close> when the
  number of valid numbers, each repeat counted, is the number of locations. For a
  selection without repeats that is the case exactly when every location is selected
  (lemma \<open>distinct_selection_covers_all\<close>). With repeats it is not: on the two
  locations of the scenario the command \<^verbatim>\<open>1 1\<close> is written as \<^verbatim>\<open>deleted_all\<close> although
  only location 1 is requested, twice, and location 2 never; and the command \<^verbatim>\<open>1 2 1\<close>,
  which names both locations, is written as \<^verbatim>\<open>deleted_some\<close>.
\<close>

theorem decision_counts_repeated_numbers:
  "(\<exists>st'. prompt_loop quiet_environment ''/mnt'' 1 7 scenario_locations [''1 1'', ''yes'']
             fresh_state = (Finished, [], st') \<and>
      map pf_decision (processed_files (db st')) = [''deleted_all''] \<and>
      filter is_enqueue (trace st') =
        [Enqueue_delete_edit ''/mnt/A/x.dwg'' True, Enqueue_delete_edit ''/mnt/A/x.dwg'' True]) \<and>
   (\<exists>st'. prompt_loop quiet_environment ''/mnt'' 1 7 scenario_locations [''1 2 1'', ''yes'']
             fresh_state = (Finished, [], st') \<and>
      map pf_decision (processed_files (db st')) = [''deleted_some''] \<and>
      filter is_enqueue (trace st') =
        [Enqueue_delete_edit ''/mnt/A/x.dwg'' True, Enqueue_delete_edit ''/mnt/B/x.dwg'' True,
         Enqueue_delete_edit ''/mnt/A/x.dwg'' True])"
proof (rule conjI)
  have ne: "[1, 1] \<noteq> ([] :: int list)" by simp
  from prompt_loop_scenario_delete [OF parse_11 valid_numbers_scenario(2) ne]
  show "\<exists>st'. prompt_loop quiet_environment ''/mnt'' 1 7 scenario_locations [''1 1'', ''yes'']
             fresh_state = (Finished, [], st') \<and>
      map pf_decision (processed_files (db st')) = [''deleted_all''] \<and>
      filter is_enqueue (trace st') =
        [Enqueue_delete_edit ''/mnt/A/x.dwg'' True, Enqueue_delete_edit ''/mnt/A/x.dwg'' True]"
    by (simp add: requests_scenario)
next
  have ne: "[1, 2, 1] \<noteq> ([] :: int list)" by simp
  from prompt_loop_scenario_delete [OF parse_selections(1) valid_numbers_scenario(3) ne]
  show "\<exists>st'. prompt_loop quiet_environment ''/mnt'' 1 7 scenario_locations [''1 2 1'', ''yes'']
             fresh_state = (Finished, [], st') \<and>
      map pf_decision (processed_files (db st')) = [''deleted_some''] \<and>
      filter is_enqueue (trace st') =
        [Enqueue_delete_edit ''/mnt/A/x.dwg'' True, Enqueue_delete_edit ''/mnt/B/x.dwg'' True,
         Enqueue_delete_edit ''/mnt/A/x.dwg'' True]"
    by (simp add: requests_scenario)
qed

section \<open>An induction rule for the prompt loop\<close>

lemma prompt_loop_delete_yes:
  assumes "fst (parse_user_command inp) = ''delete''"
      and "filter (\<lambda>n. 1 \<le> n \<and> n \<le> int (length locs)) (snd (parse_user_command inp)) \<noteq> []"
      and "lower confirm \<in> {''yes'', ''y''}"
  shows "prompt_loop E m lid fid locs (inp # confirm # rest) st =
     (case write_processed_file st fid lid
             (if length (filter (\<lambda>n. 1 \<le> n \<and> n \<le> int (length locs))
                           (snd (parse_user_command inp))) = length locs
              then ''deleted_all'' else ''deleted_some'') of
        (Inl e, st1) \<Rightarrow> (Raised e, rest, st1)
      | (Inr processed_file_id, st1) \<Rightarrow>
          (case delete_each E m processed_file_id locs
                  (filter (\<lambda>n. 1 \<le> n \<and> n \<le> int (length locs)) (snd (parse_user_command inp)))
                  st1 of
             (Some e, st2) \<Rightarrow> (Raised e, rest, st2)
           | (None, st2) \<Rightarrow> (Finished, rest, st2)))"
proof -
  from assms(3) have "lower confirm = ''yes'' \<or> lower confirm = ''y''" by simp
  then show ?thesis
    using assms(1,2) by (elim disjE) (simp_all add: prompt_loop_delete Let_def)
qed

lemma prompt_loop_delete_no:
  assumes "fst (parse_user_command inp) = ''delete''"
      and "filter (\<lambda>n. 1 \<le> n \<and> n \<le> int (length locs)) (snd (parse_user_command inp)) \<noteq> []"
      and "lower confirm \<notin> {''yes'', ''y''}"
  shows "prompt_loop E m lid fid locs (inp # confirm # rest) st =
         prompt_loop E m lid fid locs rest st"
  using assms by (simp add: prompt_loop_delete Let_def)


lemma prompt_loop_rel:
  fixes R :: "sweep_state \<Rightarrow> outcome \<Rightarrow> sweep_state \<Rightarrow> bool"
  assumes eof: "\<And>st. R st (Raised (end_of_answers E)) st"
    and skip: "\<And>st. R st Finished st"
    and quit_fail: "\<And>st e st1. sync_to_storage E st = (Some e, st1) \<Longrightarrow> R st (Raised e) st1"
    and quit_ok: "\<And>st st1. sync_to_storage E st = (None, st1) \<Longrightarrow>
                    R st Returned (st1\<lparr>trace := trace st1 @ [Temp_cleanup]\<rparr>)"
    and write_fail: "\<And>st dec e st1. write_processed_file st fid lid dec = (Inl e, st1) \<Longrightarrow>
                    R st (Raised e) st1"
    and keep: "\<And>st p st1. write_processed_file st fid lid ''kept_all'' = (Inr p, st1) \<Longrightarrow>
                    R st Finished st1"
    and del: "\<And>st dec p st1 nums r st2.
                write_processed_file st fid lid dec = (Inr p, st1) \<Longrightarrow>
                \<forall>n \<in> set nums. 1 \<le> n \<and> n \<le> int (length locs) \<Longrightarrow>
                delete_each E m p locs nums st1 = (r, st2) \<Longrightarrow>
                R st (case r of None \<Rightarrow> Finished | Some e \<Rightarrow> Raised e) st2"
    and opened: "\<And>st p out st'. R (st\<lparr>trace := trace st @ [Copy_and_open p]\<rparr>) out st' \<Longrightarrow>
                    R st out st'"
  shows "prompt_loop E m lid fid locs inputs st = (out, inputs', st') \<Longrightarrow> R st out st'"
proof (induction inputs arbitrary: st rule: length_induct)
  case (1 inputs)
  note IH = "1.IH" [rule_format]
  note run = "1.prems"
  show ?case
  proof (cases inputs)
    case Nil
    with run eof show ?thesis by simp
  next
    case (Cons inp rest)
    have less: "length rest < length inputs" using Cons by simp
    consider (invalid) "fst (parse_user_command inp) = ''invalid''"
      | (keep) "fst (parse_user_command inp) = ''keep''"
      | (skip) "fst (parse_user_command inp) = ''skip''"
      | (quit) "fst (parse_user_command inp) = ''quit''"
      | (opn) "fst (parse_user_command inp) = ''open''"
      | (delete) "fst (parse_user_command inp) = ''delete''"
      using parse_cases [of inp] by auto
    then show ?thesis
    proof cases
      case invalid
      with run Cons have "prompt_loop E m lid fid locs rest st = (out, inputs', st')"
        by (simp add: prompt_loop_invalid)
      with less show ?thesis by (rule IH)
    next
      case keep
      obtain r st1 where w: "write_processed_file st fid lid ''kept_all'' = (r, st1)"
        by (cases "write_processed_file st fid lid ''kept_all''")
      show ?thesis
      proof (cases r)
        case (Inl e)
        with run Cons keep w have "out = Raised e" "st' = st1" by (simp_all add: prompt_loop_keep)
        with write_fail w Inl show ?thesis by simp
      next
        case (Inr p)
        with run Cons keep w have "out = Finished" "st' = st1" by (simp_all add: prompt_loop_keep)
        with assms(6) w Inr show ?thesis by simp
      qed
    next
      case skip
      with run Cons have "out = Finished" "st' = st" by (simp_all add: prompt_loop_skip)
      with assms(2) show ?thesis by simp
    next
      case quit
      obtain r st1 where s: "sync_to_storage E st = (r, st1)" by (cases "sync_to_storage E st")
      show ?thesis
      proof (cases r)
        case None
        with run Cons quit s have "out = Returned" "st' = st1\<lparr>trace := trace st1 @ [Temp_cleanup]\<rparr>"
          by (simp_all add: prompt_loop_quit)
        with quit_ok s None show ?thesis by simp
      next
        case (Some e)
        with run Cons quit s have "out = Raised e" "st' = st1" by (simp_all add: prompt_loop_quit)
        with quit_fail s Some show ?thesis by simp
      qed
    next
      case opn
      from parse_open_numbers [OF opn] obtain num where n: "snd (parse_user_command inp) = [num]" ..
      show ?thesis
      proof (cases "1 \<le> num \<and> num \<le> int (length locs)")
        case True
        let ?st1 = "st\<lparr>trace := trace st @ [Copy_and_open (delete_path m (locs ! nat (num - 1)))]\<rparr>"
        from run Cons opn n True have "prompt_loop E m lid fid locs rest ?st1 = (out, inputs', st')"
          by (simp add: prompt_loop_open)
        with less have "R ?st1 out st'" by (rule IH)
        then show ?thesis by (rule opened)
      next
        case False
        with run Cons opn n have "prompt_loop E m lid fid locs rest st = (out, inputs', st')"
          by (simp add: prompt_loop_open)
        with less show ?thesis by (rule IH)
      qed
    next
      case delete
      let ?valid = "filter (\<lambda>n. 1 \<le> n \<and> n \<le> int (length locs)) (snd (parse_user_command inp))"
      note unf = prompt_loop_delete [OF delete, of E m lid fid locs]
      show ?thesis
      proof (cases "?valid = []")
        case True
        with run Cons have "prompt_loop E m lid fid locs rest st = (out, inputs', st')"
          by (simp add: unf Let_def)
        with less show ?thesis by (rule IH)
      next
        case nonempty: False
        show ?thesis
        proof (cases rest)
          case Nil
          with run Cons nonempty have "out = Raised (end_of_answers E)" "st' = st"
            by (simp_all add: unf Let_def)
          with eof show ?thesis by simp
        next
          case (Cons confirm rest')
          have less': "length rest' < length inputs" using Cons \<open>inputs = inp # rest\<close> by simp
          show ?thesis
          proof (cases "lower confirm \<in> {''yes'', ''y''}")
            case False
            from run Cons \<open>inputs = inp # rest\<close>
            have "prompt_loop E m lid fid locs rest' st = (out, inputs', st')"
              by (simp add: prompt_loop_delete_no [OF delete nonempty False])
            with less' show ?thesis by (rule IH)
          next
            case True
            note yes = prompt_loop_delete_yes [OF delete nonempty True, of E m lid fid rest' st]
            let ?dec = "if length ?valid = length locs then ''deleted_all'' else ''deleted_some''"
            obtain r st1 where w: "write_processed_file st fid lid ?dec = (r, st1)"
              by (cases "write_processed_file st fid lid ?dec")
            show ?thesis
            proof (cases r)
              case (Inl e)
              with run Cons \<open>inputs = inp # rest\<close> w
              have "out = Raised e" "st' = st1" by (simp_all add: yes)
              with write_fail w Inl show ?thesis by simp
            next
              case (Inr p)
              obtain r2 st2 where d: "delete_each E m p locs ?valid st1 = (r2, st2)"
                by (cases "delete_each E m p locs ?valid st1")
              have rng: "\<forall>n \<in> set ?valid. 1 \<le> n \<and> n \<le> int (length locs)" by simp
              from run Cons \<open>inputs = inp # rest\<close> w Inr d
              have "out = (case r2 of None \<Rightarrow> Finished | Some e \<Rightarrow> Raised e)" "st' = st2"
                by (simp_all add: yes split: option.splits)
              moreover from w Inr have "write_processed_file st fid lid ?dec = (Inr p, st1)" by simp
              from del [OF this rng d]
              have "R st (case r2 of None \<Rightarrow> Finished | Some e \<Rightarrow> Raised e) st2" .
              ultimately show ?thesis by simp
            qed
          qed
        qed
      qed
    qed
  qed
qed

section \<open>What the loops add to the trace\<close>

lemma sync_to_storage_cases:
  assumes "sync_to_storage E st = (r, st1)"
  shows "db st1 = db st \<and>
     ((r = None \<and> trace st1 = trace st @ [Sync_to_storage True] \<and> storage st1 = Some (db st)) \<or>
      (\<exists>msg. r = Some (OSError msg) \<and> trace st1 = trace st @ [Sync_to_storage False] \<and>
             storage st1 = storage st))"
  using assms by (auto simp: sync_to_storage_def split: option.splits)

lemma write_processed_file_cases:
  assumes "write_processed_file st fid lid dec = (r, st1)"
  shows "(\<exists>e. r = Inl e \<and> st1 = st \<and> (\<forall>msg. e \<noteq> OSError msg)) \<or>
     (\<exists>p. r = Inr p \<and> \<not> is_file_processed (db st) fid \<and>
          trace st1 = trace st @ [Record_processed_file fid dec] \<and> storage st1 = storage st \<and>
          map pf_archives_app_file_id (processed_files (db st1)) =
            map pf_archives_app_file_id (processed_files (db st)) @ [fid])"
proof (cases "is_file_processed (db st) fid")
  case True
  from assms show ?thesis by (auto simp: write_processed_file_known [OF True])
next
  case False
  from assms show ?thesis by (auto simp: write_processed_file_new [OF False] False)
qed

lemma failed_sync_is_last_none:
  "Sync_to_storage False \<notin> set tr \<Longrightarrow> failed_sync_is_last out tr"
  by (simp add: failed_sync_is_last_def)

lemma failed_sync_is_last_end:
  "Sync_to_storage False \<notin> set a \<Longrightarrow>
   failed_sync_is_last (Raised (OSError msg)) (a @ [Sync_to_storage False])"
  by (simp add: failed_sync_is_last_def)

lemma failed_sync_is_last_append:
  assumes "Sync_to_storage False \<notin> set a" and "failed_sync_is_last out b"
  shows "failed_sync_is_last out (a @ b)"
proof (cases "Sync_to_storage False \<in> set b")
  case False
  with assms(1) show ?thesis by (simp add: failed_sync_is_last_def)
next
  case True
  with assms(2) obtain msg tr0 where
    o: "out = Raised (OSError msg)" and b: "b = tr0 @ [Sync_to_storage False]"
    and n: "Sync_to_storage False \<notin> set tr0"
    unfolding failed_sync_is_last_def by blast
  have "a @ b = (a @ tr0) @ [Sync_to_storage False]" using b by simp
  moreover have "Sync_to_storage False \<notin> set (a @ tr0)" using assms(1) n by simp
  ultimately show ?thesis using o unfolding failed_sync_is_last_def by blast
qed

lemma inner_events_no_sync:
  "\<forall>ev \<in> set tr. inner_event ev \<Longrightarrow> Sync_to_storage ok \<notin> set tr"
  by (auto simp: inner_event_def)

lemma inner_events_no_display:
  "\<forall>ev \<in> set tr. inner_event ev \<Longrightarrow> Display_file_locations f \<notin> set tr"
  by (auto simp: inner_event_def)

lemma delete_each_trace:
  "\<forall>n \<in> set nums. 1 \<le> n \<and> n \<le> int (length locs) \<Longrightarrow>
   \<exists>st' tr. delete_each E m pfid locs nums st = (None, st') \<and>
     trace st' = trace st @ tr \<and> (\<forall>ev \<in> set tr. inner_event ev) \<and>
     processed_files (db st') = processed_files (db st)"
proof (induction nums arbitrary: st)
  case Nil
  then show ?case by simp
next
  case (Cons num nums)
  then have rng: "1 \<le> num" "num \<le> int (length locs)"
    and rest: "\<forall>n \<in> set nums. 1 \<le> n \<and> n \<le> int (length locs)"
    by simp_all
  let ?p = "delete_path m (locs ! nat (num - 1))"
  let ?k = "length (filter is_enqueue (trace st))"
  let ?st1 = "st\<lparr>trace := trace st @ [Enqueue_delete_edit ?p (delete_error E ?k ?p = None)]\<rparr>"
  show ?case
  proof (cases "delete_error E ?k ?p")
    case None
    let ?st2 = "write_deleted_file ?st1 pfid ?p (size_bytes (locs ! nat (num - 1)))"
    from Cons.IH [OF rest, of ?st2] obtain st' tr where
      ih: "delete_each E m pfid locs nums ?st2 = (None, st')" "trace st' = trace ?st2 @ tr"
          "\<forall>ev \<in> set tr. inner_event ev" "processed_files (db st') = processed_files (db ?st2)"
      by blast
    have run: "delete_each E m pfid locs (num # nums) st = (None, st')"
      by (subst delete_each_step [OF rng]) (use ih(1) None in \<open>simp add: Let_def\<close>)
    have tr: "trace st' = trace st @ ([Enqueue_delete_edit ?p True,
                Record_deleted_file ?p (size_bytes (locs ! nat (num - 1)))] @ tr)"
      using ih(2) None by (simp add: write_deleted_file_simps)
    have inner: "\<forall>ev \<in> set ([Enqueue_delete_edit ?p True,
                Record_deleted_file ?p (size_bytes (locs ! nat (num - 1)))] @ tr). inner_event ev"
      using ih(3) by (simp add: inner_event_def)
    have pf: "processed_files (db st') = processed_files (db st)"
      using ih(4) by (simp add: write_deleted_file_simps record_deleted_file_tables)
    from run tr inner pf show ?thesis by blast
  next
    case (Some msg)
    let ?st2 = "write_error ?st1 ''delete'' msg (Some ?p)"
    from Cons.IH [OF rest, of ?st2] obtain st' tr where
      ih: "delete_each E m pfid locs nums ?st2 = (None, st')" "trace st' = trace ?st2 @ tr"
          "\<forall>ev \<in> set tr. inner_event ev" "processed_files (db st') = processed_files (db ?st2)"
      by blast
    have run: "delete_each E m pfid locs (num # nums) st = (None, st')"
      by (subst delete_each_step [OF rng]) (use ih(1) Some in \<open>simp add: Let_def\<close>)
    have tr: "trace st' = trace st @ ([Enqueue_delete_edit ?p False,
                Log_error ''delete'' msg (Some ?p)] @ tr)"
      using ih(2) Some by (simp add: write_error_simps)
    have inner: "\<forall>ev \<in> set ([Enqueue_delete_edit ?p False,
                Log_error ''delete'' msg (Some ?p)] @ tr). inner_event ev"
      using ih(3) by (simp add: inner_event_def)
    have pf: "processed_files (db st') = processed_files (db st)"
      using ih(4) by (simp add: write_error_simps log_error_tables)
    from run tr inner pf show ?thesis by blast
  qed
qed

lemma failed_sync_is_last_absent:
  assumes "failed_sync_is_last out tr" and "\<forall>msg. out \<noteq> Raised (OSError msg)"
  shows "Sync_to_storage False \<notin> set tr"
  using assms unfolding failed_sync_is_last_def by blast

lemma prompt_loop_trace:
  assumes run: "prompt_loop E m lid fid locs inputs st = (out, inputs', st')"
  shows "\<exists>tr. trace st' = trace st @ tr \<and> failed_sync_is_last out tr \<and>
              (\<forall>f. Display_file_locations f \<notin> set tr)"
proof (rule prompt_loop_rel [OF _ _ _ _ _ _ _ _ run,
    where R = "\<lambda>st out st'. \<exists>tr. trace st' = trace st @ tr \<and> failed_sync_is_last out tr \<and>
              (\<forall>f. Display_file_locations f \<notin> set tr)"], goal_cases)
  case (1 st)
  have "trace st = trace st @ []" by simp
  then show ?case using failed_sync_is_last_none [of "[]"] by fastforce
next
  case (2 st)
  have "trace st = trace st @ []" by simp
  then show ?case using failed_sync_is_last_none [of "[]"] by fastforce
next
  case (3 st e st1)
  from sync_to_storage_cases [OF 3] obtain msg where
    "e = OSError msg" "trace st1 = trace st @ [Sync_to_storage False]" by auto
  moreover have "failed_sync_is_last (Raised (OSError msg)) ([] @ [Sync_to_storage False])"
    by (rule failed_sync_is_last_end) simp
  ultimately show ?case by fastforce
next
  case (4 st st1)
  from sync_to_storage_cases [OF 4]
  have "trace (st1\<lparr>trace := trace st1 @ [Temp_cleanup]\<rparr>) =
          trace st @ [Sync_to_storage True, Temp_cleanup]" by auto
  moreover have "failed_sync_is_last Returned [Sync_to_storage True, Temp_cleanup]"
    by (rule failed_sync_is_last_none) simp
  ultimately show ?case by fastforce
next
  case (5 st dec e st1)
  from write_processed_file_cases [OF 5] have "st1 = st" by auto
  then have "trace st1 = trace st @ []" by simp
  then show ?case using failed_sync_is_last_none [of "[]"] by fastforce
next
  case (6 st p st1)
  from write_processed_file_cases [OF 6]
  have "trace st1 = trace st @ [Record_processed_file fid ''kept_all'']" by auto
  moreover have "failed_sync_is_last Finished [Record_processed_file fid ''kept_all'']"
    by (rule failed_sync_is_last_none) simp
  ultimately show ?case by fastforce
next
  case (7 st dec p st1 nums r st2)
  from write_processed_file_cases [OF 7(1)]
  have w: "trace st1 = trace st @ [Record_processed_file fid dec]" by auto
  from delete_each_trace [OF 7(2), of E m p st1] 7(3) obtain tr where
    r: "r = None" and t: "trace st2 = trace st1 @ tr" and i: "\<forall>ev \<in> set tr. inner_event ev"
    by auto
  have t': "trace st2 = trace st @ (Record_processed_file fid dec # tr)" using w t by simp
  have ns: "Sync_to_storage False \<notin> set (Record_processed_file fid dec # tr)"
    using inner_events_no_sync [OF i] by simp
  have nd: "\<forall>f. Display_file_locations f \<notin> set (Record_processed_file fid dec # tr)"
    using inner_events_no_display [OF i] by simp
  from failed_sync_is_last_none [OF ns, of Finished] t' nd r show ?case by fastforce
next
  case (8 st p out st')
  then obtain tr where t: "trace st' = trace st @ (Copy_and_open p # tr)"
    and f: "failed_sync_is_last out tr" and d: "\<forall>f. Display_file_locations f \<notin> set tr"
    by auto
  have "failed_sync_is_last out ([Copy_and_open p] @ tr)"
    by (rule failed_sync_is_last_append [OF _ f]) simp
  then have "failed_sync_is_last out (Copy_and_open p # tr)" by simp
  moreover have "\<forall>f. Display_file_locations f \<notin> set (Copy_and_open p # tr)" using d by simp
  ultimately show ?case using t by blast
qed

lemma file_ids_unique_append:
  assumes "file_ids_unique D" and "\<not> is_file_processed D fid"
    and "map pf_archives_app_file_id (processed_files D') =
         map pf_archives_app_file_id (processed_files D) @ [fid]"
  shows "file_ids_unique D'"
  using assms by (simp add: file_ids_unique_def is_file_processed_def)

lemma file_ids_unique_same:
  "processed_files D' = processed_files D \<Longrightarrow> file_ids_unique D' = file_ids_unique D"
  by (simp add: file_ids_unique_def)

lemma prompt_loop_unique:
  assumes run: "prompt_loop E m lid fid locs inputs st = (out, inputs', st')"
  shows "file_ids_unique (db st) \<longrightarrow> file_ids_unique (db st')"
proof (rule prompt_loop_rel [OF _ _ _ _ _ _ _ _ run,
    where R = "\<lambda>st out st'. file_ids_unique (db st) \<longrightarrow> file_ids_unique (db st')"], goal_cases)
  case (1 st) show ?case by simp
next
  case (2 st) show ?case by simp
next
  case (3 st e st1)
  from sync_to_storage_cases [OF 3] show ?case by simp
next
  case (4 st st1)
  from sync_to_storage_cases [OF 4] show ?case by simp
next
  case (5 st dec e st1)
  from write_processed_file_cases [OF 5] show ?case by auto
next
  case (6 st p st1)
  from write_processed_file_cases [OF 6] show ?case
    by (auto intro: file_ids_unique_append)
next
  case (7 st dec p st1 nums r st2)
  from write_processed_file_cases [OF 7(1)]
  have w: "file_ids_unique (db st) \<longrightarrow> file_ids_unique (db st1)"
    by (auto intro: file_ids_unique_append)
  from delete_each_trace [OF 7(2), of E m p st1] 7(3)
  have "processed_files (db st2) = processed_files (db st1)" by auto
  then have "file_ids_unique (db st2) = file_ids_unique (db st1)" by (rule file_ids_unique_same)
  with w show ?case by simp
next
  case (8 st p out st')
  then show ?case by simp
qed

section \<open>An induction rule for the review loop\<close>

lemma review_files_rel:
  fixes R :: "int list \<Rightarrow> sweep_state \<Rightarrow> outcome \<Rightarrow> sweep_state \<Rightarrow> bool"
  assumes nil: "\<And>st. R [] st Finished st"
    and no_locations: "\<And>fid fids st e. R (fid # fids) st (Raised e) st"
    and stop: "\<And>fid fids st inputs o1 i1 st1.
        prompt_loop E m lid fid (get_all_locations_for_file C fid) inputs
          (st\<lparr>trace := trace st @ [Display_file_locations fid]\<rparr>) = (o1, i1, st1) \<Longrightarrow>
        o1 \<noteq> Finished \<Longrightarrow> R (fid # fids) st o1 st1"
    and sync_failed: "\<And>fid fids st inputs i1 st1 e st2.
        prompt_loop E m lid fid (get_all_locations_for_file C fid) inputs
          (st\<lparr>trace := trace st @ [Display_file_locations fid]\<rparr>) = (Finished, i1, st1) \<Longrightarrow>
        sync_to_storage E st1 = (Some e, st2) \<Longrightarrow> R (fid # fids) st (Raised e) st2"
    and synced: "\<And>fid fids st inputs i1 st1 st2 out st'.
        prompt_loop E m lid fid (get_all_locations_for_file C fid) inputs
          (st\<lparr>trace := trace st @ [Display_file_locations fid]\<rparr>) = (Finished, i1, st1) \<Longrightarrow>
        sync_to_storage E st1 = (None, st2) \<Longrightarrow> R fids st2 out st' \<Longrightarrow> R (fid # fids) st out st'"
    and continue: "\<And>fid fids st inputs i1 st1 out st'.
        prompt_loop E m lid fid (get_all_locations_for_file C fid) inputs
          (st\<lparr>trace := trace st @ [Display_file_locations fid]\<rparr>) = (Finished, i1, st1) \<Longrightarrow>
        R fids st1 out st' \<Longrightarrow> R (fid # fids) st out st'"
  shows "review_files E C m lid idx t0 fids inputs st = (out, st') \<Longrightarrow> R fids st out st'"
proof (induction fids arbitrary: idx t0 inputs st)
  case Nil
  then show ?case using nil by simp
next
  case (Cons fid fids)
  let ?locs = "get_all_locations_for_file C fid"
  let ?st0 = "st\<lparr>trace := trace st @ [Display_file_locations fid]\<rparr>"
  note run = Cons.prems
  show ?case
  proof (cases "subscript ?locs 0")
    case (Inl e)
    with run have "out = Raised e" "st' = st" by simp_all
    with no_locations show ?thesis by simp
  next
    case (Inr loc)
    obtain o1 i1 st1 where pl: "prompt_loop E m lid fid ?locs inputs ?st0 = (o1, i1, st1)"
      by (cases "prompt_loop E m lid fid ?locs inputs ?st0")
    show ?thesis
    proof (cases "o1 = Finished")
      case False
      with run Inr pl have "out = o1" "st' = st1" by (cases o1; simp)+
      with stop [OF pl False] show ?thesis by simp
    next
      case True
      note pl' = pl [unfolded True]
      show ?thesis
      proof (cases "time_time E idx - t0 \<ge> sync_interval")
        case late: True
        obtain r st2 where s: "sync_to_storage E st1 = (r, st2)" by (cases "sync_to_storage E st1")
        show ?thesis
        proof (cases r)
          case None
          with run Inr pl' late s
          have "review_files E C m lid (Suc idx) (time_time E idx) fids i1 st2 = (out, st')"
            by (simp add: Let_def)
          then have "R fids st2 out st'" by (rule Cons.IH)
          with pl' s None show ?thesis using synced by blast
        next
          case (Some e)
          with run Inr pl' late s have "out = Raised e" "st' = st2" by (simp_all add: Let_def)
          with sync_failed [OF pl'] s Some show ?thesis by simp
        qed
      next
        case False
        with run Inr pl'
        have "review_files E C m lid (Suc idx) t0 fids i1 st1 = (out, st')"
          by (simp add: Let_def)
        then have "R fids st1 out st'" by (rule Cons.IH)
        with pl' show ?thesis using continue by blast
      qed
    qed
  qed
qed

lemma review_files_trace:
  assumes run: "review_files E C m lid idx t0 fids inputs st = (out, st')"
  shows "\<exists>tr. trace st' = trace st @ tr \<and> failed_sync_is_last out tr \<and>
              (\<forall>f. Display_file_locations f \<in> set tr \<longrightarrow> f \<in> set fids)"
proof (rule review_files_rel [OF _ _ _ _ _ _ run,
    where R = "\<lambda>fids st out st'. \<exists>tr. trace st' = trace st @ tr \<and> failed_sync_is_last out tr \<and>
              (\<forall>f. Display_file_locations f \<in> set tr \<longrightarrow> f \<in> set fids)"], goal_cases)
  case (1 st)
  have "trace st = trace st @ []" by simp
  then show ?case using failed_sync_is_last_none [of "[]"] by fastforce
next
  case (2 fid fids st e)
  have "trace st = trace st @ []" by simp
  then show ?case using failed_sync_is_last_none [of "[]"] by fastforce
next
  case (3 fid fids st inputs o1 i1 st1)
  from prompt_loop_trace [OF 3(1)] obtain tr1 where
    t: "trace st1 = trace st @ (Display_file_locations fid # tr1)"
    and f: "failed_sync_is_last o1 tr1" and d: "\<forall>f. Display_file_locations f \<notin> set tr1"
    by auto
  have "failed_sync_is_last o1 ([Display_file_locations fid] @ tr1)"
    by (rule failed_sync_is_last_append [OF _ f]) simp
  then have "failed_sync_is_last o1 (Display_file_locations fid # tr1)" by simp
  moreover have "\<forall>f. Display_file_locations f \<in> set (Display_file_locations fid # tr1)
                   \<longrightarrow> f \<in> set (fid # fids)"
    using d by simp
  ultimately show ?case using t by blast
next
  case (4 fid fids st inputs i1 st1 e st2)
  from prompt_loop_trace [OF 4(1)] obtain tr1 where
    t: "trace st1 = trace st @ (Display_file_locations fid # tr1)"
    and f: "failed_sync_is_last Finished tr1" and d: "\<forall>f. Display_file_locations f \<notin> set tr1"
    by auto
  have n: "Sync_to_storage False \<notin> set tr1" by (rule failed_sync_is_last_absent [OF f]) simp
  from sync_to_storage_cases [OF 4(2)] obtain msg where
    e: "e = OSError msg" and t2: "trace st2 = trace st1 @ [Sync_to_storage False]" by auto
  have t': "trace st2 = trace st @ ((Display_file_locations fid # tr1) @ [Sync_to_storage False])"
    using t t2 by simp
  have "failed_sync_is_last (Raised (OSError msg))
          ((Display_file_locations fid # tr1) @ [Sync_to_storage False])"
    by (rule failed_sync_is_last_end) (use n in simp)
  moreover have "\<forall>f. Display_file_locations f \<in>
                     set ((Display_file_locations fid # tr1) @ [Sync_to_storage False])
                   \<longrightarrow> f \<in> set (fid # fids)"
    using d by simp
  ultimately show ?case using t' e by blast
next
  case (5 fid fids st inputs i1 st1 st2 out st')
  from prompt_loop_trace [OF 5(1)] obtain tr1 where
    t: "trace st1 = trace st @ (Display_file_locations fid # tr1)"
    and f: "failed_sync_is_last Finished tr1" and d: "\<forall>f. Display_file_locations f \<notin> set tr1"
    by auto
  have n: "Sync_to_storage False \<notin> set tr1" by (rule failed_sync_is_last_absent [OF f]) simp
  from sync_to_storage_cases [OF 5(2)]
  have t2: "trace st2 = trace st1 @ [Sync_to_storage True]" by auto
  from 5(3) obtain tr2 where
    t3: "trace st' = trace st2 @ tr2" and f2: "failed_sync_is_last out tr2"
    and d2: "\<forall>f. Display_file_locations f \<in> set tr2 \<longrightarrow> f \<in> set fids"
    by auto
  have t': "trace st' = trace st @ ((Display_file_locations fid # tr1 @ [Sync_to_storage True]) @ tr2)"
    using t t2 t3 by simp
  have "failed_sync_is_last out ((Display_file_locations fid # tr1 @ [Sync_to_storage True]) @ tr2)"
    by (rule failed_sync_is_last_append [OF _ f2]) (use n in simp)
  moreover have "\<forall>f. Display_file_locations f \<in>
                     set ((Display_file_locations fid # tr1 @ [Sync_to_storage True]) @ tr2)
                   \<longrightarrow> f \<in> set (fid # fids)"
    using d d2 by auto
  ultimately show ?case using t' by blast
next
  case (6 fid fids st inputs i1 st1 out st')
  from prompt_loop_trace [OF 6(1)] obtain tr1 where
    t: "trace st1 = trace st @ (Display_file_locations fid # tr1)"
    and f: "failed_sync_is_last Finished tr1" and d: "\<forall>f. Display_file_locations f \<notin> set tr1"
    by auto
  have n: "Sync_to_storage False \<notin> set tr1" by (rule failed_sync_is_last_absent [OF f]) simp
  from 6(2) obtain tr2 where
    t3: "trace st' = trace st1 @ tr2" and f2: "failed_sync_is_last out tr2"
    and d2: "\<forall>f. Display_file_locations f \<in> set tr2 \<longrightarrow> f \<in> set fids"
    by auto
  have t': "trace st' = trace st @ ((Display_file_locations fid # tr1) @ tr2)"
    using t t3 by simp
  have "failed_sync_is_last out ((Display_file_locations fid # tr1) @ tr2)"
    by (rule failed_sync_is_last_append [OF _ f2]) (use n in simp)
  moreover have "\<forall>f. Display_file_locations f \<in> set ((Display_file_locations fid # tr1) @ tr2)
                   \<longrightarrow> f \<in> set (fid # fids)"
    using d d2 by auto
  ultimately show ?case using t' by blast
qed

lemma review_files_unique:
  assumes run: "review_files E C m lid idx t0 fids inputs st = (out, st')"
  shows "file_ids_unique (db st) \<longrightarrow> file_ids_unique (db st')"
proof (rule review_files_rel [OF _ _ _ _ _ _ run,
    where R = "\<lambda>fids st out st'. file_ids_unique (db st) \<longrightarrow> file_ids_unique (db st')"], goal_cases)
  case (1 st) show ?case by simp
next
  case (2 fid fids st e) show ?case by simp
next
  case (3 fid fids st inputs o1 i1 st1)
  from prompt_loop_unique [OF 3(1)] show ?case by simp
next
  case (4 fid fids st inputs i1 st1 e st2)
  from prompt_loop_unique [OF 4(1)] sync_to_storage_cases [OF 4(2)] show ?case by simp
next
  case (5 fid fids st inputs i1 st1 st2 out st')
  from prompt_loop_unique [OF 5(1)] sync_to_storage_cases [OF 5(2)] 5(3) show ?case by simp
next
  case (6 fid fids st inputs i1 st1 out st')
  from prompt_loop_unique [OF 6(1)] 6(2) show ?case by simp
qed

section \<open>The sweep as a whole\<close>

lemma write_processed_location_cases:
  assumes "write_processed_location st lp n c = (new_id, st1)"
  shows "trace st1 = trace st @ [Record_processed_location lp n] \<and> storage st1 = storage st \<and>
         processed_files (db st1) = processed_files (db st) \<and>
         deleted_files (db st1) = deleted_files (db st) \<and> errors (db st1) = errors (db st)"
  using assms
  by (auto simp: write_processed_location_def record_processed_location_def Let_def)

lemma sweep_try_cases:
  assumes "sweep_try E C lp m inputs st = (out, st1)"
  shows "(\<exists>e. normalize_path_for_query E (PurePosixPath lp) (PurePosixPath m) = Inl e \<and>
              out = Raised e \<and> st1 = st) \<or>
         (out = Returned \<and> st1 = st) \<or>
         (\<exists>target lid st0 t0.
            normalize_path_for_query E (PurePosixPath lp) (PurePosixPath m) = Inr target \<and>
            write_processed_location st lp (length (files_to_review (db st) C target)) False = (lid, st0) \<and>
            review_files E C m lid 1 t0 (files_to_review (db st) C target) inputs st0 = (out, st1))"
proof (cases "normalize_path_for_query E (PurePosixPath lp) (PurePosixPath m)")
  case (Inl e)
  with assms show ?thesis by (simp add: sweep_try_def)
next
  case (Inr target)
  show ?thesis
  proof (cases "find_duplicates_in_location C target = [] \<or>
                group_by_file_id (unprocessed_records (db st) C target) = []")
    case True
    with assms Inr have "out = Returned \<and> st1 = st"
      by (auto simp: sweep_try_def Let_def split: if_splits)
    then show ?thesis by simp
  next
    case False
    obtain lid st0 where w: "write_processed_location st lp
        (length (files_to_review (db st) C target)) False = (lid, st0)"
      by (cases "write_processed_location st lp (length (files_to_review (db st) C target)) False")
    with assms Inr False
    have "review_files E C m lid 1 (time_time E 0) (files_to_review (db st) C target) inputs st0
            = (out, st1)"
      by (simp add: sweep_try_def Let_def files_to_review_def)
    with Inr w show ?thesis by blast
  qed
qed

lemma sweep_try_trace:
  assumes "sweep_try E C lp m inputs st = (out, st1)"
  shows "\<exists>tr. trace st1 = trace st @ tr \<and> failed_sync_is_last out tr \<and>
     (\<forall>f. Display_file_locations f \<in> set tr \<longrightarrow>
        (\<exists>target. normalize_path_for_query E (PurePosixPath lp) (PurePosixPath m) = Inr target \<and>
                  f \<in> set (files_to_review (db st) C target)))"
proof -
  have empty: "\<exists>tr. trace st = trace st @ tr \<and> failed_sync_is_last out tr \<and>
     (\<forall>f. Display_file_locations f \<in> set tr \<longrightarrow>
        (\<exists>target. normalize_path_for_query E (PurePosixPath lp) (PurePosixPath m) = Inr target \<and>
                  f \<in> set (files_to_review (db st) C target)))"
    by (rule exI [where x = "[]"]) (simp add: failed_sync_is_last_none)
  from sweep_try_cases [OF assms] consider
    (a) "st1 = st"
    | (b) target lid st0 t0 where
        "normalize_path_for_query E (PurePosixPath lp) (PurePosixPath m) = Inr target"
        "write_processed_location st lp (length (files_to_review (db st) C target)) False = (lid, st0)"
        "review_files E C m lid 1 t0 (files_to_review (db st) C target) inputs st0 = (out, st1)"
    by blast
  then show ?thesis
  proof cases
    case a
    with empty show ?thesis by simp
  next
    case b
    from write_processed_location_cases [OF b(2)]
    have t0: "trace st0 = trace st @
        [Record_processed_location lp (length (files_to_review (db st) C target))]" by simp
    from review_files_trace [OF b(3)] obtain tr where
      t: "trace st1 = trace st0 @ tr" and f: "failed_sync_is_last out tr"
      and d: "\<forall>f. Display_file_locations f \<in> set tr \<longrightarrow> f \<in> set (files_to_review (db st) C target)"
      by blast
    let ?r = "Record_processed_location lp (length (files_to_review (db st) C target))"
    have t': "trace st1 = trace st @ (?r # tr)" using t0 t by simp
    have "failed_sync_is_last out ([?r] @ tr)"
      by (rule failed_sync_is_last_append [OF _ f]) simp
    then have f': "failed_sync_is_last out (?r # tr)" by simp
    have d': "\<forall>f. Display_file_locations f \<in> set (?r # tr) \<longrightarrow>
        (\<exists>target. normalize_path_for_query E (PurePosixPath lp) (PurePosixPath m) = Inr target \<and>
                  f \<in> set (files_to_review (db st) C target))"
      using d b(1) by auto
    from t' f' d' show ?thesis by blast
  qed
qed

lemma sweep_try_unique:
  assumes "sweep_try E C lp m inputs st = (out, st1)" and "file_ids_unique (db st)"
  shows "file_ids_unique (db st1)"
proof -
  from sweep_try_cases [OF assms(1)] consider
    (a) "st1 = st"
    | (b) target lid st0 t0 where
        "write_processed_location st lp (length (files_to_review (db st) C target)) False = (lid, st0)"
        "review_files E C m lid 1 t0 (files_to_review (db st) C target) inputs st0 = (out, st1)"
    by blast
  then show ?thesis
  proof cases
    case a
    with assms(2) show ?thesis by simp
  next
    case b
    from write_processed_location_cases [OF b(1)]
    have "processed_files (db st0) = processed_files (db st)" by simp
    then have "file_ids_unique (db st0)" using assms(2) by (simp add: file_ids_unique_def)
    with review_files_unique [OF b(2)] show ?thesis by simp
  qed
qed

text \<open>The handler and the cleanup phase of \<^verbatim>\<open>run_sweep\<close>, after the try block.\<close>

lemma run_sweep_after_try:
  assumes "sweep_try E C lp m inputs st = (out, st1)"
  shows "run_sweep E C lp m inputs st = sweep_exit E lp out st1"
  using assms by (simp add: run_sweep_def)

lemma handler_printed:
  "handler_prints E e \<Longrightarrow>
   handler E lp e st = (None, write_error st ''sweep'' (str_exn e) (Some lp))"
  by (auto simp: handler_def handler_prints_def split: option.splits if_splits)

lemma handler_not_printed:
  "\<not> handler_prints E e \<Longrightarrow> \<exists>msg. handler E lp e st = (Some (MarkupError msg), st)"
  by (auto simp: handler_def handler_prints_def split: option.splits if_splits)

lemma before_finally:
  "\<exists>pending.
     (case out of
        Raised e \<Rightarrow> if is_Exception e then handler E lp e st1 else (Some e, st1)
      | _ \<Rightarrow> (None, st1)) =
     (pending,
      if caught_and_printed E out then write_error st1 ''sweep'' (message_of out) (Some lp)
      else st1) \<and>
     (pending = None \<longleftrightarrow> caught_and_printed E out \<or> out = Finished \<or> out = Returned) \<and>
     (\<forall>e. out = Raised e \<and> \<not> is_Exception e \<longrightarrow> pending = Some e)"
proof (cases out)
  case Finished
  then show ?thesis by (simp add: caught_and_printed_def)
next
  case Returned
  then show ?thesis by (simp add: caught_and_printed_def)
next
  case (Raised e)
  show ?thesis
  proof (cases "is_Exception e")
    case False
    with Raised show ?thesis by (simp add: caught_and_printed_def)
  next
    case exc: True
    show ?thesis
    proof (cases "handler_prints E e")
      case True
      with Raised exc handler_printed [OF True, of lp st1] show ?thesis
        by (simp add: caught_and_printed_def message_of_def)
    next
      case False
      from handler_not_printed [OF False, of lp st1] obtain msg where
        "handler E lp e st1 = (Some (MarkupError msg), st1)" ..
      with Raised exc False show ?thesis by (simp add: caught_and_printed_def)
    qed
  qed
qed

lemma sweep_exit_cases:
  "\<exists>ok. trace (snd (sweep_exit E lp out st1)) =
           trace st1 @
           (if caught_and_printed E out then [Log_error ''sweep'' (message_of out) (Some lp)] else []) @
           Sync_to_storage ok # (if ok then [Close_sweep_db, Close_archives_db, Temp_cleanup] else []) \<and>
         db (snd (sweep_exit E lp out st1)) =
           (if caught_and_printed E out then log_error (db st1) ''sweep'' (message_of out) (Some lp)
            else db st1) \<and>
         storage (snd (sweep_exit E lp out st1)) =
           (if ok then Some (db (snd (sweep_exit E lp out st1))) else storage st1) \<and>
         (if ok then
            (fst (sweep_exit E lp out st1) = None \<longleftrightarrow>
               caught_and_printed E out \<or> out = Finished \<or> out = Returned) \<and>
            (\<forall>e. out = Raised e \<and> \<not> is_Exception e \<longrightarrow> fst (sweep_exit E lp out st1) = Some e)
          else (\<exists>msg. fst (sweep_exit E lp out st1) = Some (OSError msg)))"
proof -
  let ?st2 = "if caught_and_printed E out then write_error st1 ''sweep'' (message_of out) (Some lp)
              else st1"
  from before_finally [where out = out and E = E and lp = lp and ?st1.0 = st1] obtain pending where
    b: "(case out of
           Raised e \<Rightarrow> if is_Exception e then handler E lp e st1 else (Some e, st1)
         | _ \<Rightarrow> (None, st1)) = (pending, ?st2)"
    and p: "pending = None \<longleftrightarrow> caught_and_printed E out \<or> out = Finished \<or> out = Returned"
    and q: "\<forall>e. out = Raised e \<and> \<not> is_Exception e \<longrightarrow> pending = Some e"
    by blast
  have t2: "trace ?st2 = trace st1 @
      (if caught_and_printed E out then [Log_error ''sweep'' (message_of out) (Some lp)] else [])"
    by (simp add: write_error_simps)
  have d2: "db ?st2 =
      (if caught_and_printed E out then log_error (db st1) ''sweep'' (message_of out) (Some lp)
       else db st1)"
    by (simp add: write_error_simps)
  have s2: "storage ?st2 = storage st1" by (simp add: write_error_simps)
  obtain r st3 where s: "sync_to_storage E ?st2 = (r, st3)" by (cases "sync_to_storage E ?st2")
  have run: "sweep_exit E lp out st1 =
      (case r of Some e \<Rightarrow> (Some e, st3)
       | None \<Rightarrow> (pending, st3\<lparr>trace := trace st3 @ [Close_sweep_db, Close_archives_db, Temp_cleanup]\<rparr>))"
    unfolding sweep_exit_def b using s by (simp split: option.splits)
  from sync_to_storage_cases [OF s] consider
    (ok) "r = None" "trace st3 = trace ?st2 @ [Sync_to_storage True]" "storage st3 = Some (db ?st2)"
         "db st3 = db ?st2"
    | (failed) msg where "r = Some (OSError msg)" "trace st3 = trace ?st2 @ [Sync_to_storage False]"
         "storage st3 = storage ?st2" "db st3 = db ?st2"
    by blast
  then show ?thesis
  proof cases
    case ok
    have f: "fst (sweep_exit E lp out st1) = pending" by (simp add: run ok)
    have t: "trace (snd (sweep_exit E lp out st1)) = trace ?st2 @
        [Sync_to_storage True, Close_sweep_db, Close_archives_db, Temp_cleanup]"
      by (simp add: run ok)
    have d: "db (snd (sweep_exit E lp out st1)) = db ?st2" by (simp add: run ok)
    have g: "storage (snd (sweep_exit E lp out st1)) = Some (db ?st2)" by (simp add: run ok)
    show ?thesis
      apply (rule exI [where x = True])
      unfolding f t d g t2 d2 using p q by simp
  next
    case failed
    have f: "fst (sweep_exit E lp out st1) = Some (OSError msg)" by (simp add: run failed)
    have t: "trace (snd (sweep_exit E lp out st1)) = trace ?st2 @ [Sync_to_storage False]"
      by (simp add: run failed)
    have d: "db (snd (sweep_exit E lp out st1)) = db ?st2" by (simp add: run failed)
    have g: "storage (snd (sweep_exit E lp out st1)) = storage st1" by (simp add: run failed s2)
    show ?thesis
      apply (rule exI [where x = False])
      unfolding f t d g t2 d2 by simp
  qed
qed

lemma sweep_exit_trace:
  "\<exists>hs ok. trace (snd (sweep_exit E lp out st1)) =
           trace st1 @ hs @
           Sync_to_storage ok # (if ok then [Close_sweep_db, Close_archives_db, Temp_cleanup] else []) \<and>
         list_all inner_event hs \<and>
         processed_files (db (snd (sweep_exit E lp out st1))) = processed_files (db st1)"
proof -
  let ?hs = "if caught_and_printed E out then [Log_error ''sweep'' (message_of out) (Some lp)] else []"
  from sweep_exit_cases [of E lp out st1] obtain ok where
    t: "trace (snd (sweep_exit E lp out st1)) =
           trace st1 @ ?hs @
           Sync_to_storage ok # (if ok then [Close_sweep_db, Close_archives_db, Temp_cleanup] else [])"
    and d: "db (snd (sweep_exit E lp out st1)) =
           (if caught_and_printed E out then log_error (db st1) ''sweep'' (message_of out) (Some lp)
            else db st1)"
    by blast
  have i: "list_all inner_event ?hs" by (simp add: inner_event_def)
  have p: "processed_files (db (snd (sweep_exit E lp out st1))) = processed_files (db st1)"
    unfolding d by (simp add: log_error_tables)
  from t i p show ?thesis by blast
qed

lemma run_sweep_unique:
  assumes "file_ids_unique (db st)"
  shows "file_ids_unique (db (snd (run_sweep E C lp m inputs st)))"
proof -
  obtain out st1 where t: "sweep_try E C lp m inputs st = (out, st1)"
    by (cases "sweep_try E C lp m inputs st")
  from sweep_try_unique [OF t assms] have u: "file_ids_unique (db st1)" .
  from sweep_exit_trace [of E lp out st1]
  have "processed_files (db (snd (sweep_exit E lp out st1))) = processed_files (db st1)" by blast
  with u show ?thesis unfolding run_sweep_after_try [OF t] by (simp add: file_ids_unique_def)
qed

section \<open>Exits of the review loop\<close>

text \<open>
  Claim C5, as stated, fails. On the catalog with the two files 7 and 8 to review, the
  operator keeps file 7 and presses \<^verbatim>\<open>Ctrl-C\<close> at the prompt of file 8. The prompt raises
  \<^verbatim>\<open>KeyboardInterrupt\<close>, which is no instance of \<^verbatim>\<open>Exception\<close>: the handler does not
  catch it, no row of \<^verbatim>\<open>errors\<close> is written, and the exception leaves \<^verbatim>\<open>run_sweep\<close>
  after the final sync and the releases.
\<close>

theorem keyboard_interrupt_is_not_logged:
  "fst (sweep_try interrupted_environment crowded_catalog ''/mnt/A'' ''/mnt'' [''c''] fresh_state) =
     Raised KeyboardInterrupt \<and>
   fst (run_sweep interrupted_environment crowded_catalog ''/mnt/A'' ''/mnt'' [''c''] fresh_state) =
     Some KeyboardInterrupt \<and>
   errors (db (snd (run_sweep interrupted_environment crowded_catalog ''/mnt/A'' ''/mnt'' [''c'']
                      fresh_state))) = [] \<and>
   trace (snd (run_sweep interrupted_environment crowded_catalog ''/mnt/A'' ''/mnt'' [''c'']
                 fresh_state)) =
     [Record_processed_location ''/mnt/A'' 2, Display_file_locations 7,
      Record_processed_file 7 ''kept_all'', Display_file_locations 8,
      Sync_to_storage True, Close_sweep_db, Close_archives_db, Temp_cleanup]"
proof -
  have a: "fst (sweep_try interrupted_environment crowded_catalog ''/mnt/A'' ''/mnt'' [''c'']
                  fresh_state) = Raised KeyboardInterrupt" by code_simp
  have b: "fst (run_sweep interrupted_environment crowded_catalog ''/mnt/A'' ''/mnt'' [''c'']
                  fresh_state) = Some KeyboardInterrupt" by code_simp
  have c: "errors (db (snd (run_sweep interrupted_environment crowded_catalog ''/mnt/A'' ''/mnt''
                      [''c''] fresh_state))) = []" by code_simp
  have d: "trace (snd (run_sweep interrupted_environment crowded_catalog ''/mnt/A'' ''/mnt'' [''c'']
                 fresh_state)) =
     [Record_processed_location ''/mnt/A'' 2, Display_file_locations 7,
      Record_processed_file 7 ''kept_all'', Display_file_locations 8,
      Sync_to_storage True, Close_sweep_db, Close_archives_db, Temp_cleanup]" by code_simp
  from a b c d show ?thesis by (intro conjI)
qed

text \<open>
  The handler puts the message of the exception into the markup of its print as it is.
  For the location \<^verbatim>\<open>/other/[/x]\<close> the try block raises the \<^verbatim>\<open>ValueError\<close> of a path
  that is not under the mount; the print of the handler raises \<^verbatim>\<open>MarkupError\<close>, the
  row of \<^verbatim>\<open>errors\<close> is not written, and the \<^verbatim>\<open>MarkupError\<close> leaves \<^verbatim>\<open>run_sweep\<close>
  after the final sync and the releases.
\<close>

lemma markup_in_message_is_not_logged:
  "fst (sweep_try markup_environment crowded_catalog ''/other/[/x]'' ''/mnt'' [''c''] fresh_state) =
     Raised (ValueError ''/other/[/x] is not under /mnt'') \<and>
   errors (db (snd (run_sweep markup_environment crowded_catalog ''/other/[/x]'' ''/mnt'' [''c'']
                      fresh_state))) = [] \<and>
   trace (snd (run_sweep markup_environment crowded_catalog ''/other/[/x]'' ''/mnt'' [''c'']
                 fresh_state)) =
     [Sync_to_storage True, Close_sweep_db, Close_archives_db, Temp_cleanup] \<and>
   (\<exists>msg. fst (run_sweep markup_environment crowded_catalog ''/other/[/x]'' ''/mnt'' [''c'']
                  fresh_state) = Some (MarkupError msg))"
proof -
  have a: "fst (sweep_try markup_environment crowded_catalog ''/other/[/x]'' ''/mnt'' [''c'']
                  fresh_state) = Raised (ValueError ''/other/[/x] is not under /mnt'')"
    by code_simp
  have b: "errors (db (snd (run_sweep markup_environment crowded_catalog ''/other/[/x]'' ''/mnt''
                      [''c''] fresh_state))) = []" by code_simp
  have c: "trace (snd (run_sweep markup_environment crowded_catalog ''/other/[/x]'' ''/mnt'' [''c'']
                 fresh_state)) =
     [Sync_to_storage True, Close_sweep_db, Close_archives_db, Temp_cleanup]" by code_simp
  have "fst (run_sweep markup_environment crowded_catalog ''/other/[/x]'' ''/mnt'' [''c'']
                  fresh_state) =
        Some (MarkupError (''closing tag '' @ [CHR 0x27] @ ''[/x]'' @ [CHR 0x27] @
                          '' at position 32 doesn'' @ [CHR 0x27] @ ''t match any open tag''))"
    by code_simp
  then have d: "\<exists>msg. fst (run_sweep markup_environment crowded_catalog ''/other/[/x]'' ''/mnt''
                  [''c''] fresh_state) = Some (MarkupError msg)" by blast
  from a b c d show ?thesis by (intro conjI)
qed

text \<open>
  Claim C5, amended. \<^verbatim>\<open>run_sweep\<close> is its try block followed by the handler and the
  \<^verbatim>\<open>finally\<close> block. However the try block ended (the review loop has gone through all
  files, a \<^verbatim>\<open>return\<close> was reached, which is what the quit command does, or an exception
  was raised, of whatever class), the calls that follow are a call of
  \<^verbatim>\<open>sync_to_storage\<close> and, if that sync succeeded, the releases of the cleanup phase;
  a sync that succeeded has copied the tracking database to the storage location, and
  one that failed leaves \<^verbatim>\<open>run_sweep\<close> with its exception. Before that sync, an
  exception that is an instance of \<^verbatim>\<open>Exception\<close> and that the handler has printed is
  written as one row at the end of \<^verbatim>\<open>errors\<close>, with the operation \<^verbatim>\<open>sweep\<close>, the
  message of the exception and the location path as context, and it does not leave
  \<^verbatim>\<open>run_sweep\<close>. In every other case \<^verbatim>\<open>errors\<close> is as the try block left it; an
  exception that is no instance of \<^verbatim>\<open>Exception\<close> leaves \<^verbatim>\<open>run_sweep\<close> after the
  releases. The other three tables are as the try block left them.
\<close>

theorem final_sync_after_every_exit:
  "run_sweep E C lp m inputs st =
     sweep_exit E lp (fst (sweep_try E C lp m inputs st)) (snd (sweep_try E C lp m inputs st)) \<and>
   (\<exists>ok. trace (snd (sweep_exit E lp out st1)) =
            trace st1 @
            (if caught_and_printed E out then [Log_error ''sweep'' (message_of out) (Some lp)]
             else []) @
            Sync_to_storage ok #
            (if ok then [Close_sweep_db, Close_archives_db, Temp_cleanup] else []) \<and>
          errors (db (snd (sweep_exit E lp out st1))) =
            errors (db st1) @
            (if caught_and_printed E out
             then [\<lparr>er_id = lastrowid (map er_id (errors (db st1))), er_operation = ''sweep'',
                    er_message = message_of out, er_context = Some lp\<rparr>]
             else []) \<and>
          processed_locations (db (snd (sweep_exit E lp out st1))) = processed_locations (db st1) \<and>
          processed_files (db (snd (sweep_exit E lp out st1))) = processed_files (db st1) \<and>
          deleted_files (db (snd (sweep_exit E lp out st1))) = deleted_files (db st1) \<and>
          storage (snd (sweep_exit E lp out st1)) =
            (if ok then Some (db (snd (sweep_exit E lp out st1))) else storage st1) \<and>
          (if ok then
             (fst (sweep_exit E lp out st1) = None \<longleftrightarrow>
                caught_and_printed E out \<or> out = Finished \<or> out = Returned) \<and>
             (\<forall>e. out = Raised e \<and> \<not> is_Exception e \<longrightarrow>
                  fst (sweep_exit E lp out st1) = Some e)
           else (\<exists>msg. fst (sweep_exit E lp out st1) = Some (OSError msg))))"
proof (rule conjI)
  show "run_sweep E C lp m inputs st =
     sweep_exit E lp (fst (sweep_try E C lp m inputs st)) (snd (sweep_try E C lp m inputs st))"
    by (rule run_sweep_after_try) simp
next
  from sweep_exit_cases [of E lp out st1] obtain ok where
    t: "trace (snd (sweep_exit E lp out st1)) =
           trace st1 @
           (if caught_and_printed E out then [Log_error ''sweep'' (message_of out) (Some lp)] else []) @
           Sync_to_storage ok # (if ok then [Close_sweep_db, Close_archives_db, Temp_cleanup] else [])"
    and d: "db (snd (sweep_exit E lp out st1)) =
           (if caught_and_printed E out then log_error (db st1) ''sweep'' (message_of out) (Some lp)
            else db st1)"
    and s: "storage (snd (sweep_exit E lp out st1)) =
           (if ok then Some (db (snd (sweep_exit E lp out st1))) else storage st1)"
    and f: "if ok then
            (fst (sweep_exit E lp out st1) = None \<longleftrightarrow>
               caught_and_printed E out \<or> out = Finished \<or> out = Returned) \<and>
            (\<forall>e. out = Raised e \<and> \<not> is_Exception e \<longrightarrow> fst (sweep_exit E lp out st1) = Some e)
          else (\<exists>msg. fst (sweep_exit E lp out st1) = Some (OSError msg))"
    by blast
  have e: "errors (db (snd (sweep_exit E lp out st1))) =
            errors (db st1) @
            (if caught_and_printed E out
             then [\<lparr>er_id = lastrowid (map er_id (errors (db st1))), er_operation = ''sweep'',
                    er_message = message_of out, er_context = Some lp\<rparr>]
             else [])"
    unfolding d by (simp add: log_error_def)
  have pl: "processed_locations (db (snd (sweep_exit E lp out st1))) = processed_locations (db st1)"
    unfolding d by (simp add: log_error_def)
  have pf: "processed_files (db (snd (sweep_exit E lp out st1))) = processed_files (db st1)"
    unfolding d by (simp add: log_error_def)
  have df: "deleted_files (db (snd (sweep_exit E lp out st1))) = deleted_files (db st1)"
    unfolding d by (simp add: log_error_def)
  from t e pl pf df s f
  have fin: "trace (snd (sweep_exit E lp out st1)) =
            trace st1 @
            (if caught_and_printed E out then [Log_error ''sweep'' (message_of out) (Some lp)]
             else []) @
            Sync_to_storage ok #
            (if ok then [Close_sweep_db, Close_archives_db, Temp_cleanup] else []) \<and>
          errors (db (snd (sweep_exit E lp out st1))) =
            errors (db st1) @
            (if caught_and_printed E out
             then [\<lparr>er_id = lastrowid (map er_id (errors (db st1))), er_operation = ''sweep'',
                    er_message = message_of out, er_context = Some lp\<rparr>]
             else []) \<and>
          processed_locations (db (snd (sweep_exit E lp out st1))) = processed_locations (db st1) \<and>
          processed_files (db (snd (sweep_exit E lp out st1))) = processed_files (db st1) \<and>
          deleted_files (db (snd (sweep_exit E lp out st1))) = deleted_files (db st1) \<and>
          storage (snd (sweep_exit E lp out st1)) =
            (if ok then Some (db (snd (sweep_exit E lp out st1))) else storage st1) \<and>
          (if ok then
             (fst (sweep_exit E lp out st1) = None \<longleftrightarrow>
                caught_and_printed E out \<or> out = Finished \<or> out = Returned) \<and>
             (\<forall>e. out = Raised e \<and> \<not> is_Exception e \<longrightarrow>
                  fst (sweep_exit E lp out st1) = Some e)
           else (\<exists>msg. fst (sweep_exit E lp out st1) = Some (OSError msg)))"
    by (intro conjI)
  show "\<exists>ok. trace (snd (sweep_exit E lp out st1)) =
            trace st1 @
            (if caught_and_printed E out then [Log_error ''sweep'' (message_of out) (Some lp)]
             else []) @
            Sync_to_storage ok #
            (if ok then [Close_sweep_db, Close_archives_db, Temp_cleanup] else []) \<and>
          errors (db (snd (sweep_exit E lp out st1))) =
            errors (db st1) @
            (if caught_and_printed E out
             then [\<lparr>er_id = lastrowid (map er_id (errors (db st1))), er_operation = ''sweep'',
                    er_message = message_of out, er_context = Some lp\<rparr>]
             else []) \<and>
          processed_locations (db (snd (sweep_exit E lp out st1))) = processed_locations (db st1) \<and>
          processed_files (db (snd (sweep_exit E lp out st1))) = processed_files (db st1) \<and>
          deleted_files (db (snd (sweep_exit E lp out st1))) = deleted_files (db st1) \<and>
          storage (snd (sweep_exit E lp out st1)) =
            (if ok then Some (db (snd (sweep_exit E lp out st1))) else storage st1) \<and>
          (if ok then
             (fst (sweep_exit E lp out st1) = None \<longleftrightarrow>
                caught_and_printed E out \<or> out = Finished \<or> out = Returned) \<and>
             (\<forall>e. out = Raised e \<and> \<not> is_Exception e \<longrightarrow>
                  fst (sweep_exit E lp out st1) = Some e)
           else (\<exists>msg. fst (sweep_exit E lp out st1) = Some (OSError msg)))"
    by (rule exI [where x = ok]) (rule fin)
qed

text \<open>
  Two runs on the catalog with two files to review. In the first the operator keeps file
  7 and the input stream ends at the prompt of file 8: the \<^verbatim>\<open>EOFError\<close> is written to
  \<^verbatim>\<open>errors\<close> and the final sync follows. In the second the operator keeps file 7 and
  quits at file 8: nothing is written to \<^verbatim>\<open>errors\<close>, and the final sync follows the
  sync of the quit command.
\<close>

theorem final_sync_after_every_exit_witness:
  "fst (sweep_try quiet_environment crowded_catalog ''/mnt/A'' ''/mnt'' [''c''] fresh_state) =
     Raised (EOFError ''EOF when reading a line'') \<and>
   fst (run_sweep quiet_environment crowded_catalog ''/mnt/A'' ''/mnt'' [''c''] fresh_state) = None \<and>
   errors (db (snd (run_sweep quiet_environment crowded_catalog ''/mnt/A'' ''/mnt'' [''c'']
                      fresh_state))) =
     [\<lparr>er_id = 1, er_operation = ''sweep'', er_message = ''EOF when reading a line'',
       er_context = Some ''/mnt/A''\<rparr>] \<and>
   trace (snd (run_sweep quiet_environment crowded_catalog ''/mnt/A'' ''/mnt'' [''c'']
                 fresh_state)) =
     [Record_processed_location ''/mnt/A'' 2, Display_file_locations 7,
      Record_processed_file 7 ''kept_all'', Display_file_locations 8,
      Log_error ''sweep'' ''EOF when reading a line'' (Some ''/mnt/A''),
      Sync_to_storage True, Close_sweep_db, Close_archives_db, Temp_cleanup] \<and>
   fst (sweep_try quiet_environment crowded_catalog ''/mnt/A'' ''/mnt'' [''c'', ''q''] fresh_state) =
     Returned \<and>
   errors (db (snd (run_sweep quiet_environment crowded_catalog ''/mnt/A'' ''/mnt'' [''c'', ''q'']
                      fresh_state))) = [] \<and>
   trace (snd (run_sweep quiet_environment crowded_catalog ''/mnt/A'' ''/mnt'' [''c'', ''q'']
                 fresh_state)) =
     [Record_processed_location ''/mnt/A'' 2, Display_file_locations 7,
      Record_processed_file 7 ''kept_all'', Display_file_locations 8,
      Sync_to_storage True, Temp_cleanup,
      Sync_to_storage True, Close_sweep_db, Close_archives_db, Temp_cleanup]"
proof -
  let ?eof = "Raised (EOFError ''EOF when reading a line'')"
  let ?body1 = "sweep_try quiet_environment crowded_catalog ''/mnt/A'' ''/mnt'' [''c''] fresh_state"
  let ?run1 = "run_sweep quiet_environment crowded_catalog ''/mnt/A'' ''/mnt'' [''c''] fresh_state"
  let ?body2 = "sweep_try quiet_environment crowded_catalog ''/mnt/A'' ''/mnt'' [''c'', ''q''] fresh_state"
  let ?run2 = "run_sweep quiet_environment crowded_catalog ''/mnt/A'' ''/mnt'' [''c'', ''q''] fresh_state"
  have f1: "fst ?body1 = ?eof" by code_simp
  have t1: "trace (snd ?body1) =
     [Record_processed_location ''/mnt/A'' 2, Display_file_locations 7,
      Record_processed_file 7 ''kept_all'', Display_file_locations 8]" by code_simp
  have e1: "errors (db (snd ?body1)) = []" by code_simp
  have r1: "fst ?run1 = None" by code_simp
  have c1: "caught_and_printed quiet_environment ?eof"
    by (simp add: caught_and_printed_def is_Exception_def handler_prints_def quiet_environment_def)
  have m1: "message_of ?eof = ''EOF when reading a line''"
    by (simp add: message_of_def str_exn_def)
  note inst1 = final_sync_after_every_exit [where E = quiet_environment and C = crowded_catalog
      and lp = "''/mnt/A''" and m = "''/mnt''" and inputs = "[''c'']" and st = fresh_state
      and out = ?eof and ?st1.0 = "snd ?body1"]
  have x1: "?run1 = sweep_exit quiet_environment ''/mnt/A'' ?eof (snd ?body1)"
    using inst1 [THEN conjunct1] unfolding f1 .
  from inst1 [THEN conjunct2] obtain ok1 where
    a1: "trace (snd (sweep_exit quiet_environment ''/mnt/A'' ?eof (snd ?body1))) =
            trace (snd ?body1) @
            (if caught_and_printed quiet_environment ?eof
             then [Log_error ''sweep'' (message_of ?eof) (Some ''/mnt/A'')]
             else []) @
            Sync_to_storage ok1 #
            (if ok1 then [Close_sweep_db, Close_archives_db, Temp_cleanup] else []) \<and>
          errors (db (snd (sweep_exit quiet_environment ''/mnt/A'' ?eof (snd ?body1)))) =
            errors (db (snd ?body1)) @
            (if caught_and_printed quiet_environment ?eof
             then [\<lparr>er_id = lastrowid (map er_id (errors (db (snd ?body1)))), er_operation = ''sweep'',
                    er_message = message_of ?eof, er_context = Some ''/mnt/A''\<rparr>]
             else []) \<and>
          processed_locations (db (snd (sweep_exit quiet_environment ''/mnt/A'' ?eof (snd ?body1)))) =
            processed_locations (db (snd ?body1)) \<and>
          processed_files (db (snd (sweep_exit quiet_environment ''/mnt/A'' ?eof (snd ?body1)))) =
            processed_files (db (snd ?body1)) \<and>
          deleted_files (db (snd (sweep_exit quiet_environment ''/mnt/A'' ?eof (snd ?body1)))) =
            deleted_files (db (snd ?body1)) \<and>
          storage (snd (sweep_exit quiet_environment ''/mnt/A'' ?eof (snd ?body1))) =
            (if ok1 then Some (db (snd (sweep_exit quiet_environment ''/mnt/A'' ?eof (snd ?body1))))
             else storage (snd ?body1)) \<and>
          (if ok1 then
             (fst (sweep_exit quiet_environment ''/mnt/A'' ?eof (snd ?body1)) = None \<longleftrightarrow>
                caught_and_printed quiet_environment ?eof \<or> ?eof = Finished \<or> ?eof = Returned) \<and>
             (\<forall>e. ?eof = Raised e \<and> \<not> is_Exception e \<longrightarrow>
                  fst (sweep_exit quiet_environment ''/mnt/A'' ?eof (snd ?body1)) = Some e)
           else (\<exists>msg. fst (sweep_exit quiet_environment ''/mnt/A'' ?eof (snd ?body1)) =
                         Some (OSError msg)))"
    ..
  note last1 = a1 [THEN conjunct2, THEN conjunct2, THEN conjunct2, THEN conjunct2, THEN conjunct2,
      THEN conjunct2]
  have ok1: "ok1"
  proof (rule ccontr)
    assume "\<not> ok1"
    with last1 obtain msg where
      "fst (sweep_exit quiet_environment ''/mnt/A'' ?eof (snd ?body1)) = Some (OSError msg)"
      by auto
    with r1 show False unfolding x1 by simp
  qed
  have tr1: "trace (snd ?run1) =
     [Record_processed_location ''/mnt/A'' 2, Display_file_locations 7,
      Record_processed_file 7 ''kept_all'', Display_file_locations 8,
      Log_error ''sweep'' ''EOF when reading a line'' (Some ''/mnt/A''),
      Sync_to_storage True, Close_sweep_db, Close_archives_db, Temp_cleanup]"
    unfolding x1 a1 [THEN conjunct1] t1 using ok1 c1 m1 by simp
  have er1: "errors (db (snd ?run1)) =
     [\<lparr>er_id = 1, er_operation = ''sweep'', er_message = ''EOF when reading a line'',
       er_context = Some ''/mnt/A''\<rparr>]"
    unfolding x1 a1 [THEN conjunct2, THEN conjunct1] e1 using c1 m1 by (simp add: lastrowid_def)
  have f2: "fst ?body2 = Returned" by code_simp
  have e2: "errors (db (snd ?run2)) = []" by code_simp
  have tr2: "trace (snd ?run2) =
     [Record_processed_location ''/mnt/A'' 2, Display_file_locations 7,
      Record_processed_file 7 ''kept_all'', Display_file_locations 8,
      Sync_to_storage True, Temp_cleanup,
      Sync_to_storage True, Close_sweep_db, Close_archives_db, Temp_cleanup]" by code_simp
  from f1 r1 er1 tr1 f2 e2 tr2 show ?thesis by (intro conjI)
qed

section \<open>A sync that fails during the review loop\<close>

text \<open>
  Claim C3, as stated, fails. On the catalog with the two files 7 and 8 to review, the
  operator keeps file 7; more than ten minutes have passed, so the checkpoint sync is
  made, and it fails. File 8 is never presented, although an answer for it is waiting:
  the exception leaves the loop, is logged by the handler of \<^verbatim>\<open>run_sweep\<close>, and the
  final sync follows.
\<close>

theorem checkpoint_failure_aborts_review:
  "files_to_review empty_db crowded_catalog ''A'' = [7, 8] \<and>
   trace (snd (run_sweep flaky_environment crowded_catalog ''/mnt/A'' ''/mnt'' [''c'', ''c'']
                 fresh_state)) =
     [Record_processed_location ''/mnt/A'' 2, Display_file_locations 7,
      Record_processed_file 7 ''kept_all'', Sync_to_storage False,
      Log_error ''sweep'' ''disk full'' (Some ''/mnt/A''), Sync_to_storage True,
      Close_sweep_db, Close_archives_db, Temp_cleanup] \<and>
   Display_file_locations 8 \<notin>
     set (trace (snd (run_sweep flaky_environment crowded_catalog ''/mnt/A'' ''/mnt'' [''c'', ''c'']
                        fresh_state)))"
proof -
  have a: "files_to_review empty_db crowded_catalog ''A'' = [7, 8]" by code_simp
  have b: "trace (snd (run_sweep flaky_environment crowded_catalog ''/mnt/A'' ''/mnt'' [''c'', ''c'']
                 fresh_state)) =
     [Record_processed_location ''/mnt/A'' 2, Display_file_locations 7,
      Record_processed_file 7 ''kept_all'', Sync_to_storage False,
      Log_error ''sweep'' ''disk full'' (Some ''/mnt/A''), Sync_to_storage True,
      Close_sweep_db, Close_archives_db, Temp_cleanup]" by code_simp
  have c: "Display_file_locations 8 \<notin>
     set (trace (snd (run_sweep flaky_environment crowded_catalog ''/mnt/A'' ''/mnt'' [''c'', ''c'']
                        fresh_state)))"
    unfolding b by simp
  from a b c show ?thesis by (intro conjI)
qed

text \<open>
  Claim C3, amended. A sync that fails during the try block (the checkpoint sync after a
  file, or the sync of the quit command) is the last call of the try block, which ends
  with the exception of that sync: the review loop has ended and no file is presented
  after it. The sync is made once more, as the sync of the cleanup phase, and that is
  the next sync: between the two there is no sync and no presentation of a file.
\<close>

theorem failed_sync_ends_review:
  assumes "sweep_try E C lp m inputs st = (out, st1)"
  shows "\<exists>tr. trace st1 = trace st @ tr \<and>
     (Sync_to_storage False \<in> set tr \<longrightarrow>
        (\<exists>msg tr0 hs ok.
           out = Raised (OSError msg) \<and> tr = tr0 @ [Sync_to_storage False] \<and>
           Sync_to_storage False \<notin> set tr0 \<and>
           trace (snd (run_sweep E C lp m inputs st)) =
             trace st @ tr0 @ [Sync_to_storage False] @ hs @
             Sync_to_storage ok #
             (if ok then [Close_sweep_db, Close_archives_db, Temp_cleanup] else []) \<and>
           list_all (\<lambda>ev. \<not> is_sync ev \<and> \<not> is_display ev) hs))"
proof -
  from sweep_try_trace [OF assms] obtain tr where
    t: "trace st1 = trace st @ tr" and f: "failed_sync_is_last out tr" by blast
  from sweep_exit_trace [of E lp out st1] obtain hs ok where
    r: "trace (snd (sweep_exit E lp out st1)) =
           trace st1 @ hs @
           Sync_to_storage ok # (if ok then [Close_sweep_db, Close_archives_db, Temp_cleanup] else [])"
    and i: "list_all inner_event hs"
    by blast
  from i have i': "list_all (\<lambda>ev. \<not> is_sync ev \<and> \<not> is_display ev) hs"
    by (simp add: inner_event_def list_all_iff)
  have "Sync_to_storage False \<in> set tr \<longrightarrow>
        (\<exists>msg tr0 hs ok.
           out = Raised (OSError msg) \<and> tr = tr0 @ [Sync_to_storage False] \<and>
           Sync_to_storage False \<notin> set tr0 \<and>
           trace (snd (run_sweep E C lp m inputs st)) =
             trace st @ tr0 @ [Sync_to_storage False] @ hs @
             Sync_to_storage ok #
             (if ok then [Close_sweep_db, Close_archives_db, Temp_cleanup] else []) \<and>
           list_all (\<lambda>ev. \<not> is_sync ev \<and> \<not> is_display ev) hs)"
  proof
    assume "Sync_to_storage False \<in> set tr"
    with f obtain msg tr0 where
      o: "out = Raised (OSError msg)" and e: "tr = tr0 @ [Sync_to_storage False]"
      and n: "Sync_to_storage False \<notin> set tr0"
      unfolding failed_sync_is_last_def by blast
    have "trace (snd (run_sweep E C lp m inputs st)) =
             trace st @ tr0 @ [Sync_to_storage False] @ hs @
             Sync_to_storage ok #
             (if ok then [Close_sweep_db, Close_archives_db, Temp_cleanup] else [])"
      unfolding run_sweep_after_try [OF assms] r t e by simp
    with o e n i' show "\<exists>msg tr0 hs ok.
           out = Raised (OSError msg) \<and> tr = tr0 @ [Sync_to_storage False] \<and>
           Sync_to_storage False \<notin> set tr0 \<and>
           trace (snd (run_sweep E C lp m inputs st)) =
             trace st @ tr0 @ [Sync_to_storage False] @ hs @
             Sync_to_storage ok #
             (if ok then [Close_sweep_db, Close_archives_db, Temp_cleanup] else []) \<and>
           list_all (\<lambda>ev. \<not> is_sync ev \<and> \<not> is_display ev) hs"
      by blast
  qed
  with t show ?thesis by blast
qed

text \<open>
  The operator skips file 7 and the checkpoint sync fails: the try block ends there, and
  file 8 is not presented. The next sync is the final one.
\<close>

theorem failed_sync_ends_review_witness:
  "sweep_try flaky_environment crowded_catalog ''/mnt/A'' ''/mnt'' [''s'', ''c''] fresh_state =
     (Raised (OSError ''disk full''),
      snd (sweep_try flaky_environment crowded_catalog ''/mnt/A'' ''/mnt'' [''s'', ''c'']
             fresh_state)) \<and>
   trace (snd (sweep_try flaky_environment crowded_catalog ''/mnt/A'' ''/mnt'' [''s'', ''c'']
                 fresh_state)) =
     [Record_processed_location ''/mnt/A'' 2, Display_file_locations 7, Sync_to_storage False] \<and>
   (\<exists>hs ok. trace (snd (run_sweep flaky_environment crowded_catalog ''/mnt/A'' ''/mnt'' [''s'', ''c'']
                          fresh_state)) =
      [Record_processed_location ''/mnt/A'' 2, Display_file_locations 7, Sync_to_storage False] @
      hs @ Sync_to_storage ok #
      (if ok then [Close_sweep_db, Close_archives_db, Temp_cleanup] else []) \<and>
      list_all (\<lambda>ev. \<not> is_sync ev \<and> \<not> is_display ev) hs) \<and>
   map is_display
     (trace (snd (run_sweep flaky_environment crowded_catalog ''/mnt/A'' ''/mnt'' [''s'', ''c'']
                    fresh_state))) =
     [False, True, False, False, False, False, False, False]"
proof -
  let ?body = "sweep_try flaky_environment crowded_catalog ''/mnt/A'' ''/mnt'' [''s'', ''c''] fresh_state"
  let ?run = "run_sweep flaky_environment crowded_catalog ''/mnt/A'' ''/mnt'' [''s'', ''c''] fresh_state"
  have f: "fst ?body = Raised (OSError ''disk full'')" by code_simp
  have t: "trace (snd ?body) =
     [Record_processed_location ''/mnt/A'' 2, Display_file_locations 7, Sync_to_storage False]"
    by code_simp
  have d: "map is_display (trace (snd ?run)) =
     [False, True, False, False, False, False, False, False]" by code_simp
  have h: "?body = (Raised (OSError ''disk full''), snd ?body)" using f by (simp add: prod_eq_iff)
  have i: "Sync_to_storage False \<in> set (trace (snd ?body))" unfolding t by simp
  from failed_sync_ends_review [OF h] obtain tr where
    a: "trace (snd ?body) = trace fresh_state @ tr \<and>
     (Sync_to_storage False \<in> set tr \<longrightarrow>
        (\<exists>msg tr0 hs ok.
           Raised (OSError ''disk full'') = Raised (OSError msg) \<and> tr = tr0 @ [Sync_to_storage False] \<and>
           Sync_to_storage False \<notin> set tr0 \<and>
           trace (snd ?run) =
             trace fresh_state @ tr0 @ [Sync_to_storage False] @ hs @
             Sync_to_storage ok #
             (if ok then [Close_sweep_db, Close_archives_db, Temp_cleanup] else []) \<and>
           list_all (\<lambda>ev. \<not> is_sync ev \<and> \<not> is_display ev) hs))"
    ..
  from a [THEN conjunct1] have tr: "tr = trace (snd ?body)" by (simp add: fresh_state_simps)
  with i have "Sync_to_storage False \<in> set tr" by simp
  with a [THEN conjunct2] obtain msg tr0 hs ok where
    e: "tr = tr0 @ [Sync_to_storage False]"
    and r: "trace (snd ?run) =
             trace fresh_state @ tr0 @ [Sync_to_storage False] @ hs @
             Sync_to_storage ok #
             (if ok then [Close_sweep_db, Close_archives_db, Temp_cleanup] else [])"
    and l: "list_all (\<lambda>ev. \<not> is_sync ev \<and> \<not> is_display ev) hs"
    by blast
  from e tr t have tr0: "tr0 = [Record_processed_location ''/mnt/A'' 2, Display_file_locations 7]"
    by simp
  have fin: "trace (snd ?run) =
      [Record_processed_location ''/mnt/A'' 2, Display_file_locations 7, Sync_to_storage False] @
      hs @ Sync_to_storage ok #
      (if ok then [Close_sweep_db, Close_archives_db, Temp_cleanup] else []) \<and>
      list_all (\<lambda>ev. \<not> is_sync ev \<and> \<not> is_display ev) hs"
    unfolding r tr0 using l by (simp add: fresh_state_simps)
  have ex: "\<exists>hs ok. trace (snd ?run) =
      [Record_processed_location ''/mnt/A'' 2, Display_file_locations 7, Sync_to_storage False] @
      hs @ Sync_to_storage ok #
      (if ok then [Close_sweep_db, Close_archives_db, Temp_cleanup] else []) \<and>
      list_all (\<lambda>ev. \<not> is_sync ev \<and> \<not> is_display ev) hs"
    using fin by blast
  from h t ex d show ?thesis by (intro conjI)
qed

section \<open>The invariant of the ledger\<close>

lemma keys_add_to_group:
  "fst ` set (add_to_group g r) = insert (archives_app_file_id r) (fst ` set g)"
  by (induction g r rule: add_to_group.induct) auto

lemma keys_group_by_file_id_aux:
  "fst ` set (foldl add_to_group g rs) = fst ` set g \<union> archives_app_file_id ` set rs"
  by (induction rs arbitrary: g) (auto simp: keys_add_to_group)

lemma keys_group_by_file_id:
  "set (map fst (group_by_file_id rs)) = archives_app_file_id ` set rs"
  by (simp add: group_by_file_id_def keys_group_by_file_id_aux)

lemma distinct_add_to_group:
  "distinct (map fst g) \<Longrightarrow> distinct (map fst (add_to_group g r))"
proof (induction g r rule: add_to_group.induct)
  case (1 r)
  then show ?case by simp
next
  case (2 k rs grouped r)
  then show ?case
    using keys_add_to_group [of grouped r] by (auto simp: image_iff)
qed

lemma distinct_group_by_file_id_aux:
  "distinct (map fst g) \<Longrightarrow> distinct (map fst (foldl add_to_group g rs))"
  by (induction rs arbitrary: g) (simp_all add: distinct_add_to_group)

lemma distinct_files_to_review: "distinct (files_to_review D C target)"
  by (simp add: files_to_review_def group_by_file_id_def distinct_group_by_file_id_aux)

lemma files_to_review_unprocessed:
  assumes "f \<in> set (files_to_review D C target)"
  shows "\<not> is_file_processed D f"
proof -
  from assms have "f \<in> archives_app_file_id ` set (unprocessed_records D C target)"
    unfolding files_to_review_def keys_group_by_file_id .
  then show ?thesis by (auto simp: unprocessed_records_def)
qed

lemma ledger_writes_unique:
  assumes "file_ids_unique D"
  shows "file_ids_unique (snd (record_processed_location D lp n c))"
    and "file_ids_unique (snd (record_processed_file D fid lid dec))"
    and "file_ids_unique (record_deleted_file D pfid path sz)"
    and "file_ids_unique (log_error D op msg ctx)"
  using assms
  by (simp_all add: file_ids_unique_def record_processed_location_def record_processed_file_def
        record_deleted_file_def log_error_def Let_def)

lemma run_sweep_presents_unprocessed:
  assumes "is_file_processed (db st) fid"
  shows "Display_file_locations fid \<notin>
           set (drop (length (trace st)) (trace (snd (run_sweep E C lp m inputs st))))"
proof -
  obtain out st1 where t: "sweep_try E C lp m inputs st = (out, st1)"
    by (cases "sweep_try E C lp m inputs st")
  from sweep_try_trace [OF t] obtain tr where
    tr: "trace st1 = trace st @ tr"
    and d: "\<forall>f. Display_file_locations f \<in> set tr \<longrightarrow>
        (\<exists>target. normalize_path_for_query E (PurePosixPath lp) (PurePosixPath m) = Inr target \<and>
                  f \<in> set (files_to_review (db st) C target))"
    by blast
  from sweep_exit_trace [of E lp out st1] obtain hs ok where
    r: "trace (snd (sweep_exit E lp out st1)) =
           trace st1 @ hs @
           Sync_to_storage ok # (if ok then [Close_sweep_db, Close_archives_db, Temp_cleanup] else [])"
    and i: "list_all inner_event hs"
    by blast
  have n: "Display_file_locations fid \<notin> set tr"
    using d assms files_to_review_unprocessed by blast
  from i have h: "Display_file_locations fid \<notin> set hs"
    by (auto simp: list_all_iff inner_event_def)
  have "drop (length (trace st)) (trace (snd (run_sweep E C lp m inputs st))) =
          tr @ hs @
           Sync_to_storage ok # (if ok then [Close_sweep_db, Close_archives_db, Temp_cleanup] else [])"
    unfolding run_sweep_after_try [OF t] r tr by simp
  then show ?thesis using n h by auto
qed

text \<open>
  Claim C4. No file id occurs in two rows of \<^verbatim>\<open>processed_files\<close>, and every operation
  keeps it so: the four writes of the ledger, and a whole run of the sweep. For a file id
  that is recorded as processed: it is not among the files to review, whatever the
  location and the catalog; a second write of it raises the IntegrityError of the UNIQUE
  constraint and leaves the ledger as it was; and no run of the sweep that starts on this
  ledger presents it. The files to review are also distinct, so a run presents no file
  twice.
\<close>

theorem processed_file_ids_unique_and_not_presented_again:
  assumes "file_ids_unique D"
  shows "file_ids_unique (snd (record_processed_location D lp n c)) \<and>
         file_ids_unique (snd (record_processed_file D fid lid dec)) \<and>
         file_ids_unique (record_deleted_file D pfid path sz) \<and>
         file_ids_unique (log_error D op msg ctx) \<and>
         (db st = D \<longrightarrow> file_ids_unique (db (snd (run_sweep E C lp m inputs st)))) \<and>
         distinct (files_to_review D C target) \<and>
         (is_file_processed D fid \<longrightarrow>
            fid \<notin> set (files_to_review D C target) \<and>
            record_processed_file D fid lid dec =
              (Inl (IntegrityError ''UNIQUE constraint failed: processed_files.archives_app_file_id''), D) \<and>
            (db st = D \<longrightarrow>
               Display_file_locations fid \<notin>
                 set (drop (length (trace st)) (trace (snd (run_sweep E C lp m inputs st))))))"
proof -
  have a: "db st = D \<longrightarrow> file_ids_unique (db (snd (run_sweep E C lp m inputs st)))"
    using assms run_sweep_unique by blast
  have b: "is_file_processed D fid \<longrightarrow>
            fid \<notin> set (files_to_review D C target) \<and>
            record_processed_file D fid lid dec =
              (Inl (IntegrityError ''UNIQUE constraint failed: processed_files.archives_app_file_id''), D) \<and>
            (db st = D \<longrightarrow>
               Display_file_locations fid \<notin>
                 set (drop (length (trace st)) (trace (snd (run_sweep E C lp m inputs st)))))"
  proof
    assume p: "is_file_processed D fid"
    have 1: "fid \<notin> set (files_to_review D C target)"
      using p files_to_review_unprocessed by blast
    have 2: "record_processed_file D fid lid dec =
              (Inl (IntegrityError ''UNIQUE constraint failed: processed_files.archives_app_file_id''), D)"
      using p by (simp add: record_processed_file_def is_file_processed_def)
    have 3: "db st = D \<longrightarrow>
               Display_file_locations fid \<notin>
                 set (drop (length (trace st)) (trace (snd (run_sweep E C lp m inputs st))))"
      using p run_sweep_presents_unprocessed by blast
    from 1 2 3 show "fid \<notin> set (files_to_review D C target) \<and>
            record_processed_file D fid lid dec =
              (Inl (IntegrityError ''UNIQUE constraint failed: processed_files.archives_app_file_id''), D) \<and>
            (db st = D \<longrightarrow>
               Display_file_locations fid \<notin>
                 set (drop (length (trace st)) (trace (snd (run_sweep E C lp m inputs st)))))"
      by (intro conjI)
  qed
  from ledger_writes_unique [OF assms] a distinct_files_to_review b show ?thesis
    by (intro conjI)
qed

text \<open>
  File 7 is recorded as processed: the sweep of \<^verbatim>\<open>A\<close> has only file 8 to review, a
  second write of file 7 is refused, and the run presents file 8 and not file 7.
\<close>

theorem processed_file_ids_unique_and_not_presented_again_witness:
  "file_ids_unique ledger_with_7 \<and> is_file_processed ledger_with_7 7 \<and>
   db state_with_7 = ledger_with_7 \<and>
   files_to_review ledger_with_7 crowded_catalog ''A'' = [8] \<and>
   7 \<notin> set (files_to_review ledger_with_7 crowded_catalog ''A'') \<and>
   record_processed_file ledger_with_7 7 2 ''deleted_all'' =
     (Inl (IntegrityError ''UNIQUE constraint failed: processed_files.archives_app_file_id''),
      ledger_with_7) \<and>
   Display_file_locations 7 \<notin>
     set (trace (snd (run_sweep quiet_environment crowded_catalog ''/mnt/A'' ''/mnt'' [''c'']
                        state_with_7))) \<and>
   Display_file_locations 8 \<in>
     set (trace (snd (run_sweep quiet_environment crowded_catalog ''/mnt/A'' ''/mnt'' [''c'']
                        state_with_7))) \<and>
   file_ids_unique
     (db (snd (run_sweep quiet_environment crowded_catalog ''/mnt/A'' ''/mnt'' [''c''] state_with_7)))"
proof -
  let ?run = "run_sweep quiet_environment crowded_catalog ''/mnt/A'' ''/mnt'' [''c''] state_with_7"
  have u: "file_ids_unique ledger_with_7" by code_simp
  have p: "is_file_processed ledger_with_7 7" by code_simp
  have d: "db state_with_7 = ledger_with_7" by (simp add: state_with_7_def)
  have t0: "trace state_with_7 = []" by (simp add: state_with_7_def)
  have r: "files_to_review ledger_with_7 crowded_catalog ''A'' = [8]" by code_simp
  have s: "Display_file_locations 8 \<in> set (trace (snd ?run))" by code_simp
  note inst = processed_file_ids_unique_and_not_presented_again [OF u,
      where fid = 7 and st = state_with_7 and E = quiet_environment and C = crowded_catalog
        and lp = "''/mnt/A''" and m = "''/mnt''" and inputs = "[''c'']" and target = "''A''"
        and lid = 2 and dec = "''deleted_all''"]
  note tail = inst [THEN conjunct2, THEN conjunct2, THEN conjunct2, THEN conjunct2]
  from tail [THEN conjunct1] d have a: "file_ids_unique (db (snd ?run))" by (rule mp)
  note proc = tail [THEN conjunct2, THEN conjunct2, THEN mp, OF p]
  note b1 = proc [THEN conjunct1]
  note b2 = proc [THEN conjunct2, THEN conjunct1]
  from proc [THEN conjunct2, THEN conjunct2] d
  have "Display_file_locations 7 \<notin> set (drop (length (trace state_with_7)) (trace (snd ?run)))"
    by (rule mp)
  then have b3: "Display_file_locations 7 \<notin> set (trace (snd ?run))" unfolding t0 by simp
  from u p d r b1 b2 b3 s a show ?thesis by (intro conjI)
qed

section \<open>Discovery of the duplicates at a location\<close>

lemma filter_map_rows:
  "filter P (map (\<lambda>(fl, f). R fl f) xs) =
     concat (map (\<lambda>(fl, f). if P (R fl f) then [R fl f] else []) xs)"
  by (induction xs) auto

lemma find_duplicates_in_location_rows:
  "find_duplicates_in_location C target =
     [\<lparr>file_server_directories = fl_file_server_directories fl,
       filename = fl_filename fl,
       size_bytes = f_size f,
       archives_app_file_id = fl_file_id fl,
       loc_count = length (filter (\<lambda>(fl', f'). fl_file_id fl' = fl_file_id fl) (locs_rows C target))\<rparr>.
        (fl, f) \<leftarrow> locs_rows C target,
        1 < length (filter (\<lambda>(fl', f'). fl_file_id fl' = fl_file_id fl) (locs_rows C target))]"
  unfolding find_duplicates_in_location_def Let_def
  by (simp add: filter_map_rows)

text \<open>
  Claim C1. The query returns the entries at the target location of the files that have
  more than one entry at the target location, each with the number of entries of its file
  at the target location: the window count is taken over the rows that the WHERE clause
  has left, not over the catalog. File 7 of the scenario is at \<^verbatim>\<open>A\<close> and at \<^verbatim>\<open>B\<close>, so
  it has two locations in the catalog and one of them is \<^verbatim>\<open>A\<close>, and the discovery at
  \<^verbatim>\<open>A\<close> as the specification words it returns its entry at \<^verbatim>\<open>A\<close> with the count 2; the
  query returns nothing, and the sweep of \<^verbatim>\<open>A\<close> ends without presenting a file. In the
  crowded catalog file 7 has three locations, two of them at \<^verbatim>\<open>A\<close>, and the query
  returns its entries with the count 2.
\<close>

theorem find_duplicates_counts_rows_at_target_only:
  "find_duplicates_in_location C target =
     [\<lparr>file_server_directories = fl_file_server_directories fl,
       filename = fl_filename fl,
       size_bytes = f_size f,
       archives_app_file_id = fl_file_id fl,
       loc_count = length (filter (\<lambda>(fl', f'). fl_file_id fl' = fl_file_id fl) (locs_rows C target))\<rparr>.
        (fl, f) \<leftarrow> locs_rows C target,
        1 < length (filter (\<lambda>(fl', f'). fl_file_id fl' = fl_file_id fl) (locs_rows C target))] \<and>
   get_all_locations_for_file scenario_catalog 7 = scenario_locations \<and>
   findDuplicates scenario_catalog ''A'' =
     [\<lparr>file_server_directories = ''A'', filename = ''x.dwg'', size_bytes = 500000,
       archives_app_file_id = 7, loc_count = 2\<rparr>] \<and>
   find_duplicates_in_location scenario_catalog ''A'' = [] \<and>
   trace (snd (run_sweep quiet_environment scenario_catalog ''/mnt/A'' ''/mnt'' [''c''] fresh_state)) =
     [Sync_to_storage True, Close_sweep_db, Close_archives_db, Temp_cleanup] \<and>
   length (get_all_locations_for_file crowded_catalog 7) = 3 \<and>
   map loc_count (findDuplicates crowded_catalog ''A'') = [3, 3, 2, 2] \<and>
   map loc_count (find_duplicates_in_location crowded_catalog ''A'') = [2, 2, 2, 2]"
proof -
  have a: "get_all_locations_for_file scenario_catalog 7 = scenario_locations" by code_simp
  have b: "findDuplicates scenario_catalog ''A'' =
     [\<lparr>file_server_directories = ''A'', filename = ''x.dwg'', size_bytes = 500000,
       archives_app_file_id = 7, loc_count = 2\<rparr>]" by code_simp
  have c: "find_duplicates_in_location scenario_catalog ''A'' = []" by code_simp
  have d: "trace (snd (run_sweep quiet_environment scenario_catalog ''/mnt/A'' ''/mnt'' [''c''] fresh_state)) =
     [Sync_to_storage True, Close_sweep_db, Close_archives_db, Temp_cleanup]" by code_simp
  have e: "length (get_all_locations_for_file crowded_catalog 7) = 3" by code_simp
  have f: "map loc_count (findDuplicates crowded_catalog ''A'') = [3, 3, 2, 2]" by code_simp
  have g: "map loc_count (find_duplicates_in_location crowded_catalog ''A'') = [2, 2, 2, 2]" by code_simp
  from find_duplicates_in_location_rows a b c d e f g show ?thesis by (intro conjI)
qed

section \<open>The round trip of the path mapping\<close>









lemma canonical_segments_single:
  "canonical_segments segs \<Longrightarrow> s \<in> set segs \<Longrightarrow> canonical_segments [s]"
  by (auto simp: canonical_segments_def list_all_iff)












text \<open>The nested calls are never deeper than there are links.\<close>

lemma joinrealpath_depth_aux:
  "card {k \<in> set (map fst (symlinks E)). map_of seen k = None} \<le> depth \<Longrightarrow>
   joinrealpath E depth path names seen \<noteq> Too_deep \<and>
   (\<forall>p seen'. joinrealpath E depth path names seen = Resolved p seen' \<longrightarrow>
      (\<forall>k. map_of seen k \<noteq> None \<longrightarrow> map_of seen' k \<noteq> None))"
proof (induction E depth path names seen rule: joinrealpath.induct)
  case (1 E depth path seen)
  then show ?case by simp
next
  case (2 E depth path name rest seen)
  let ?unseen = "\<lambda>sn. {k \<in> set (map fst (symlinks E)). map_of sn k = None}"
  note bound = "2.prems"
  show ?case
  proof (cases "name = [] \<or> name = ''.''")
    case True
    with "2.IH"(1) [OF True bound] show ?thesis by simp
  next
    case n1: False
    show ?thesis
    proof (cases "name = ''..''")
      case True
      with "2.IH"(2) [OF n1 True bound] n1 show ?thesis by simp
    next
      case n2: False
      show ?thesis
      proof (cases "map_of (symlinks E) (path @ [name])")
        case None
        with "2.IH"(3) [OF n1 n2 refl None bound] n1 n2 show ?thesis by simp
      next
        case (Some target)
        then have "map_of (symlinks E) (path @ [name]) \<noteq> None" by simp
        then have "path @ [name] \<in> fst ` set (symlinks E)" by (simp add: map_of_eq_None_iff)
        then have key: "path @ [name] \<in> set (map fst (symlinks E))" by simp
        show ?thesis
        proof (cases "map_of seen (path @ [name])")
          case s: None
          have mem: "path @ [name] \<in> ?unseen seen" using key s by simp
          have fin: "finite (?unseen seen)" by simp
          have sub: "?unseen ((path @ [name], None) # seen) = ?unseen seen - {path @ [name]}"
            by auto
          from mem have "?unseen seen \<noteq> {}" by blast
          with fin have pos: "0 < card (?unseen seen)" by (simp add: card_gt_0_iff)
          with bound have d: "depth \<noteq> 0" by simp
          have "card (?unseen ((path @ [name], None) # seen)) = card (?unseen seen) - 1"
            unfolding sub using mem fin by simp
          with bound pos have b1: "card (?unseen ((path @ [name], None) # seen)) \<le> depth - 1" by simp
          let ?inner = "joinrealpath E (depth - 1)
                            (if take 1 target = ''/'' then [] else path)
                            (split_on CHR ''/'' (if take 1 target = ''/'' then drop 1 target else target))
                            ((path @ [name], None) # seen)"
          note ih1 = "2.IH"(4) [OF n1 n2 refl Some s d b1]
          show ?thesis
          proof (cases ?inner)
            case (Resolved p seen'')
            from ih1 Resolved have mono1:
              "\<forall>k. map_of ((path @ [name], None) # seen) k \<noteq> None \<longrightarrow> map_of seen'' k \<noteq> None"
              by simp
            have sub2: "?unseen ((path @ [name], Some p) # seen'') \<subseteq> ?unseen seen"
            proof
              fix k
              assume "k \<in> ?unseen ((path @ [name], Some p) # seen'')"
              then have k1: "k \<in> set (map fst (symlinks E))" and k2: "k \<noteq> path @ [name]"
                and k3: "map_of seen'' k = None"
                by (simp_all split: if_splits)
              have "map_of seen k = None"
              proof (rule ccontr)
                assume "map_of seen k \<noteq> None"
                with k2 have "map_of ((path @ [name], None) # seen) k \<noteq> None" by simp
                with mono1 have "map_of seen'' k \<noteq> None" by blast
                with k3 show False by simp
              qed
              with k1 show "k \<in> ?unseen seen" by simp
            qed
            have "card (?unseen ((path @ [name], Some p) # seen'')) \<le> card (?unseen seen)"
              using sub2 fin by (rule card_mono [rotated])
            with bound have b2: "card (?unseen ((path @ [name], Some p) # seen'')) \<le> depth" by simp
            note ih2 = "2.IH"(5) [OF n1 n2 refl Some s d Resolved b2]
            have run: "joinrealpath E depth path (name # rest) seen =
                       joinrealpath E depth p rest ((path @ [name], Some p) # seen'')"
              using n1 n2 Some s d Resolved by (simp add: Let_def)
            have mono2: "\<forall>k. map_of seen k \<noteq> None \<longrightarrow>
                            map_of ((path @ [name], Some p) # seen'') k \<noteq> None"
            proof (intro allI impI)
              fix k
              assume a: "map_of seen k \<noteq> None"
              show "map_of ((path @ [name], Some p) # seen'') k \<noteq> None"
              proof (cases "k = path @ [name]")
                case True
                then show ?thesis by simp
              next
                case False
                with a have "map_of ((path @ [name], None) # seen) k \<noteq> None" by simp
                with mono1 have "map_of seen'' k \<noteq> None" by blast
                with False show ?thesis by simp
              qed
            qed
            from ih2 have i1: "joinrealpath E depth p rest ((path @ [name], Some p) # seen'') \<noteq> Too_deep"
              and i2: "\<forall>q sn. joinrealpath E depth p rest ((path @ [name], Some p) # seen'') = Resolved q sn \<longrightarrow>
                       (\<forall>k. map_of ((path @ [name], Some p) # seen'') k \<noteq> None \<longrightarrow> map_of sn k \<noteq> None)"
              by simp_all
            have i3: "\<forall>q sn. joinrealpath E depth p rest ((path @ [name], Some p) # seen'') = Resolved q sn \<longrightarrow>
                       (\<forall>k. map_of seen k \<noteq> None \<longrightarrow> map_of sn k \<noteq> None)"
            proof (intro allI impI)
              fix q sn k
              assume r: "joinrealpath E depth p rest ((path @ [name], Some p) # seen'') = Resolved q sn"
                and k: "map_of seen k \<noteq> None"
              from mono2 k have "map_of ((path @ [name], Some p) # seen'') k \<noteq> None" by blast
              with i2 r show "map_of sn k \<noteq> None" by blast
            qed
            show ?thesis unfolding run using i1 i3 by (rule conjI)
          next
            case Symlink_loop
            with n1 n2 Some s d show ?thesis by (simp add: Let_def)
          next
            case Too_deep
            with ih1 show ?thesis by simp
          qed
        next
          case s: (Some v)
          show ?thesis
          proof (cases v)
            case None
            with n1 n2 \<open>map_of (symlinks E) (path @ [name]) = Some target\<close> s show ?thesis by simp
          next
            case (Some cached)
            with "2.IH"(6) [OF n1 n2 refl \<open>map_of (symlinks E) (path @ [name]) = Some target\<close> s Some bound]
              n1 n2 \<open>map_of (symlinks E) (path @ [name]) = Some target\<close> s show ?thesis by simp
          qed
        qed
      qed
    qed
  qed
qed

lemma joinrealpath_depth:
  "joinrealpath E (length (symlinks E)) path names [] \<noteq> Too_deep"
proof -
  have "card {k \<in> set (map fst (symlinks E)). map_of [] k = None} \<le> card (set (map fst (symlinks E)))"
    by (rule card_mono) auto
  also have "\<dots> \<le> length (map fst (symlinks E))" by (rule card_length)
  finally have "card {k \<in> set (map fst (symlinks E)). map_of [] k = None} \<le> length (symlinks E)"
    by simp
  from joinrealpath_depth_aux [OF this] show ?thesis by blast
qed






end
